theory Spec2Isabelle
  imports Main
begin

section \<open>The script and its setting\<close>

text \<open>
  The program is the single script \<^verbatim>\<open>src/data/convert.js\<close>:
  \<^verbatim>\<open>
  const input = JSON.parse(await fs.readFile('./data/swiss_stuffes.json', 'utf-8'));
  for (const [key] of Object.entries(input.objects)) {
      const geojson = topojson.feature(input, input.objects[key]);
      await fs.writeFile(`./data/${key}.geojson`, JSON.stringify(geojson, null, 2));
  }
  \<close>
  Every exception or rejected promise ends the process, since nothing is caught: an
  error is a value, and the first one is the outcome of the run.
\<close>

datatype error =
    ENOENT \<comment> \<open>no such file\<close>
  | TypeError \<comment> \<open>property read of undefined or null, a non-string handed to writeFile\<close>
  | SyntaxError \<comment> \<open>the text is not JSON\<close>
  | Thrown string \<comment> \<open>any other failure of a call into Node or the library\<close>

subsection \<open>Values\<close>

text \<open>
  A JavaScript value as \<^verbatim>\<open>JSON.parse\<close> builds it, and \<^verbatim>\<open>undefined\<close>, which a
  property read or a library call can give. Numbers are doubles; their type is left open
  as \<open>'n\<close>. An object is the list of its own enumerable properties in the order in which
  JavaScript enumerates them; a well-formed one has no key twice.
\<close>

datatype 'n jsval =
    JUndefined
  | JNull
  | JBool bool
  | JNum 'n
  | JStr string
  | JArr "'n jsval list"
  | JObj "(string \<times> 'n jsval) list"

text \<open>Decimal digits of an array index, as the property key of that index.\<close>

function dec :: "nat \<Rightarrow> string" where
  "dec n = (if n < 10 then [char_of (48 + n)] else dec (n div 10) @ [char_of (48 + n mod 10)])"
  by pat_completeness auto
termination
  by (relation "measure id") auto

declare dec.simps [simp del]

definition index_keys :: "nat \<Rightarrow> string list" where
  "index_keys n = map dec [0..<n]"

text \<open>
  \<^verbatim>\<open>Object.entries(v)\<close>: a TypeError on undefined and null, nothing for a boolean or a
  number, the indices of a string or an array, the own properties of an object.
\<close>

fun Object_entries :: "'n jsval \<Rightarrow> error + (string \<times> 'n jsval) list" where
  "Object_entries JUndefined = Inl TypeError"
| "Object_entries JNull = Inl TypeError"
| "Object_entries (JBool b) = Inr []"
| "Object_entries (JNum n) = Inr []"
| "Object_entries (JStr s) = Inr (zip (index_keys (length s)) (map (\<lambda>c. JStr [c]) s))"
| "Object_entries (JArr xs) = Inr (zip (index_keys (length xs)) xs)"
| "Object_entries (JObj kvs) = Inr kvs"

text \<open>
  \<^verbatim>\<open>v.name\<close> and \<^verbatim>\<open>v[key]\<close>: a TypeError on undefined and null, otherwise the own
  property of that name, or undefined. The script reads the name \<^verbatim>\<open>objects\<close> and the
  keys \<^verbatim>\<open>Object.entries\<close> gave it, none of which is found on a prototype first.
\<close>

definition own_prop :: "(string \<times> 'n jsval) list \<Rightarrow> string \<Rightarrow> 'n jsval" where
  "own_prop kvs k = (case map_of kvs k of None \<Rightarrow> JUndefined | Some v \<Rightarrow> v)"

fun get_prop :: "'n jsval \<Rightarrow> string \<Rightarrow> error + 'n jsval" where
  "get_prop JUndefined k = Inl TypeError"
| "get_prop JNull k = Inl TypeError"
| "get_prop (JBool b) k = Inr JUndefined"
| "get_prop (JNum n) k = Inr JUndefined"
| "get_prop (JStr s) k = Inr (own_prop (zip (index_keys (length s)) (map (\<lambda>c. JStr [c]) s)) k)"
| "get_prop (JArr xs) k = Inr (own_prop (zip (index_keys (length xs)) xs) k)"
| "get_prop (JObj kvs) k = Inr (own_prop kvs k)"

subsection \<open>JSON.stringify with an indentation\<close>

text \<open>
  \<^verbatim>\<open>JSON.stringify(v, null, n)\<close> as ECMAScript defines it for these values. The gap is
  \<open>min n 10\<close> spaces. A string is quoted with the control characters, the double quote
  and the backslash escaped. A property whose value is undefined is left out, an array
  element that is undefined is written \<^verbatim>\<open>null\<close>, and undefined itself has no text. How a
  number is written (\<^verbatim>\<open>null\<close> when it is not finite) is the parameter \<open>nt\<close>.
\<close>

definition hex_digit :: "nat \<Rightarrow> char" where
  "hex_digit d = (if d < 10 then char_of (48 + d) else char_of (87 + d))"

definition quote_char :: "char \<Rightarrow> string" where
  "quote_char c =
     (if c = CHR 0x08 then [CHR 0x5C, CHR ''b'']
      else if c = CHR 0x09 then [CHR 0x5C, CHR ''t'']
      else if c = CHR 0x0A then [CHR 0x5C, CHR ''n'']
      else if c = CHR 0x0C then [CHR 0x5C, CHR ''f'']
      else if c = CHR 0x0D then [CHR 0x5C, CHR ''r'']
      else if c = CHR 0x22 then [CHR 0x5C, CHR 0x22]
      else if c = CHR 0x5C then [CHR 0x5C, CHR 0x5C]
      else if (of_char c :: nat) < 32 then
        [CHR 0x5C, CHR ''u'', CHR ''0'', CHR ''0'',
         hex_digit (of_char c div 16), hex_digit (of_char c mod 16)]
      else [c])"

definition quote :: "string \<Rightarrow> string" where
  "quote s = CHR 0x22 # concat (map quote_char s) @ [CHR 0x22]"

fun join :: "string \<Rightarrow> string list \<Rightarrow> string" where
  "join sep [] = []"
| "join sep [x] = x"
| "join sep (x # y # ys) = x @ sep @ join sep (y # ys)"

definition bracket :: "char \<Rightarrow> char \<Rightarrow> string \<Rightarrow> string \<Rightarrow> string list \<Rightarrow> string" where
  "bracket l r gap ind parts =
     (if parts = [] then [l, r]
      else if gap = [] then [l] @ join '','' parts @ [r]
      else [l, CHR 0x0A] @ ind @ gap @ join ('','' @ [CHR 0x0A] @ ind @ gap) parts
           @ [CHR 0x0A] @ ind @ [r])"

fun ser :: "('n \<Rightarrow> string) \<Rightarrow> string \<Rightarrow> string \<Rightarrow> 'n jsval \<Rightarrow> string option"
  and ser_elems :: "('n \<Rightarrow> string) \<Rightarrow> string \<Rightarrow> string \<Rightarrow> 'n jsval list \<Rightarrow> string list"
  and ser_props :: "('n \<Rightarrow> string) \<Rightarrow> string \<Rightarrow> string \<Rightarrow> (string \<times> 'n jsval) list \<Rightarrow> string list"
where
  "ser nt gap ind JUndefined = None"
| "ser nt gap ind JNull = Some ''null''"
| "ser nt gap ind (JBool b) = Some (if b then ''true'' else ''false'')"
| "ser nt gap ind (JNum n) = Some (nt n)"
| "ser nt gap ind (JStr s) = Some (quote s)"
| "ser nt gap ind (JArr xs) =
     Some (bracket (CHR ''['') (CHR '']'') gap ind (ser_elems nt gap (ind @ gap) xs))"
| "ser nt gap ind (JObj kvs) =
     Some (bracket (CHR ''{'') (CHR ''}'') gap ind (ser_props nt gap (ind @ gap) kvs))"
| "ser_elems nt gap ind [] = []"
| "ser_elems nt gap ind (x # xs) =
     (case ser nt gap ind x of None \<Rightarrow> ''null'' | Some t \<Rightarrow> t) # ser_elems nt gap ind xs"
| "ser_props nt gap ind [] = []"
| "ser_props nt gap ind ((k, v) # kvs) =
     (case ser nt gap ind v of
        None \<Rightarrow> ser_props nt gap ind kvs
      | Some t \<Rightarrow> (quote k @ '':'' @ (if gap = [] then [] else '' '') @ t)
                  # ser_props nt gap ind kvs)"

definition JSON_stringify :: "('n \<Rightarrow> string) \<Rightarrow> 'n jsval \<Rightarrow> nat \<Rightarrow> string option" where
  "JSON_stringify nt v n = ser nt (replicate (min n 10) (CHR '' '')) [] v"

subsection \<open>JSON.parse\<close>

text \<open>
  \<^verbatim>\<open>JSON.parse(text)\<close> as ECMAScript defines it, on texts of 8-bit characters: one value
  between white space, or a SyntaxError. How a numeric literal becomes a number is the
  parameter \<open>rd\<close>. White space is the space, the tab, the line feed and the carriage
  return.
\<close>

definition is_ws :: "char \<Rightarrow> bool" where
  "is_ws c = (c = CHR '' '' \<or> c = CHR 0x09 \<or> c = CHR 0x0A \<or> c = CHR 0x0D)"

definition skip_ws :: "string \<Rightarrow> string" where
  "skip_ws s = dropWhile is_ws s"

definition is_digit :: "char \<Rightarrow> bool" where
  "is_digit c = (48 \<le> (of_char c :: nat) \<and> (of_char c :: nat) \<le> 57)"

text \<open>
  A string after its opening quote, up to the closing one: no control character, and the
  escapes of JSON. The strings of this model are lists of 8-bit characters, where those
  of JavaScript are lists of 16-bit code units: the model covers the texts and values
  whose characters lie below \<^verbatim>\<open>0100\<close>. A \<^verbatim>\<open>\u\<close> escape up to \<^verbatim>\<open>00ff\<close> gives its character. One
  above \<^verbatim>\<open>00ff\<close>, which \<^verbatim>\<open>JSON.parse\<close> reads as that code unit, has no value here:
  \<open>code_unit\<close> gives \<open>None\<close> and the text is not parsed, a departure from \<^verbatim>\<open>JSON.parse\<close> on
  such texts. \<^verbatim>\<open>JSON.stringify\<close> of a string of the model writes no such escape (only the
  control characters are written as \<^verbatim>\<open>\u\<close> escapes), so the departure is not met when a
  serialised value is read back.
\<close>

definition unhex :: "char \<Rightarrow> nat option" where
  "unhex c =
     (let n = (of_char c :: nat) in
      if 48 \<le> n \<and> n \<le> 57 then Some (n - 48)
      else if 97 \<le> n \<and> n \<le> 102 then Some (n - 87)
      else if 65 \<le> n \<and> n \<le> 70 then Some (n - 55)
      else None)"

definition unescape :: "char \<Rightarrow> char option" where
  "unescape e =
     (if e = CHR 0x22 then Some (CHR 0x22)
      else if e = CHR 0x5C then Some (CHR 0x5C)
      else if e = CHR ''/'' then Some (CHR ''/'')
      else if e = CHR ''b'' then Some (CHR 0x08)
      else if e = CHR ''f'' then Some (CHR 0x0C)
      else if e = CHR ''n'' then Some (CHR 0x0A)
      else if e = CHR ''r'' then Some (CHR 0x0D)
      else if e = CHR ''t'' then Some (CHR 0x09)
      else None)"

definition code_unit :: "char \<Rightarrow> char \<Rightarrow> char \<Rightarrow> char \<Rightarrow> char option" where
  "code_unit a b c d =
     (case (unhex a, unhex b, unhex c, unhex d) of
        (Some x1, Some x2, Some x3, Some x4) \<Rightarrow>
          if x1 = 0 \<and> x2 = 0 then Some (char_of (x3 * 16 + x4)) else None
      | _ \<Rightarrow> None)"

fun parse_chars :: "string \<Rightarrow> (string \<times> string) option" where
  "parse_chars [] = None"
| "parse_chars (c # cs) =
     (if c = CHR 0x22 then Some ([], cs)
      else if c = CHR 0x5C then
        (case cs of
           [] \<Rightarrow> None
         | e # r \<Rightarrow>
             if e = CHR ''u'' then
               (case r of
                  a # b # c' # d # r' \<Rightarrow>
                    (case code_unit a b c' d of
                       None \<Rightarrow> None
                     | Some ch \<Rightarrow>
                         (case parse_chars r' of
                            None \<Rightarrow> None
                          | Some (s, t) \<Rightarrow> Some (ch # s, t)))
                | _ \<Rightarrow> None)
             else
               (case unescape e of
                  None \<Rightarrow> None
                | Some ch \<Rightarrow>
                    (case parse_chars r of
                       None \<Rightarrow> None
                     | Some (s, t) \<Rightarrow> Some (ch # s, t))))
      else if (of_char c :: nat) < 32 then None
      else (case parse_chars cs of None \<Rightarrow> None | Some (s, t) \<Rightarrow> Some (c # s, t)))"

text \<open>
  A number is the longest run of characters that numbers are made of, and that run has to
  be a JSON number: an optional minus, an integer part without a leading zero, an
  optional fraction, an optional exponent.
\<close>

definition num_char :: "char \<Rightarrow> bool" where
  "num_char c = (is_digit c \<or> c = CHR ''-'' \<or> c = CHR ''+'' \<or> c = CHR ''.'' \<or> c = CHR ''e''
     \<or> c = CHR ''E'')"

definition valid_exp :: "string \<Rightarrow> bool" where
  "valid_exp s =
     (case s of
        [] \<Rightarrow> True
      | e # r \<Rightarrow>
          (e = CHR ''e'' \<or> e = CHR ''E'') \<and>
          (let ds = (case r of [] \<Rightarrow> [] | c # t \<Rightarrow> if c = CHR ''+'' \<or> c = CHR ''-'' then t else r)
           in ds \<noteq> [] \<and> list_all is_digit ds))"

definition valid_frac :: "string \<Rightarrow> bool" where
  "valid_frac s =
     (case s of
        [] \<Rightarrow> True
      | c # r \<Rightarrow>
          if c = CHR ''.'' then takeWhile is_digit r \<noteq> [] \<and> valid_exp (dropWhile is_digit r)
          else valid_exp s)"

definition valid_number :: "string \<Rightarrow> bool" where
  "valid_number s =
     (let u = (case s of [] \<Rightarrow> [] | c # r \<Rightarrow> if c = CHR ''-'' then r else s);
          ip = takeWhile is_digit u
      in (ip = ''0'' \<or> (ip \<noteq> [] \<and> hd ip \<noteq> CHR ''0'')) \<and> valid_frac (dropWhile is_digit u))"

definition parse_number :: "(string \<Rightarrow> 'n) \<Rightarrow> string \<Rightarrow> ('n jsval \<times> string) option" where
  "parse_number rd s =
     (let tok = takeWhile num_char s in
      if valid_number tok then Some (JNum (rd tok), dropWhile num_char s) else None)"

text \<open>
  The properties of an object, from its members in the order of the text. A member
  whose key came before replaces the value there. A new key that is an array index
  (a decimal integer below \<open>2\<^sup>3\<^sup>2 - 1\<close>, written without a leading zero) goes among
  the indices, which come first and ascend; any other new key goes last.
\<close>

fun digits_value :: "int \<Rightarrow> string \<Rightarrow> int" where
  "digits_value acc [] = acc"
| "digits_value acc (c # cs) = digits_value (acc * 10 + ((of_char c :: int) - 48)) cs"

definition is_index :: "string \<Rightarrow> bool" where
  "is_index k =
     (k \<noteq> [] \<and> list_all is_digit k \<and> (k = ''0'' \<or> hd k \<noteq> CHR ''0'') \<and>
      digits_value 0 k < 4294967295)"

definition goes_before :: "string \<Rightarrow> string \<Rightarrow> bool" where
  "goes_before k' k = (is_index k' \<and> digits_value 0 k' < digits_value 0 k)"

definition put :: "(string \<times> 'v) list \<Rightarrow> string \<Rightarrow> 'v \<Rightarrow> (string \<times> 'v) list" where
  "put kvs k v =
     (if k \<in> set (map fst kvs) then map (\<lambda>(k', v'). if k' = k then (k', v) else (k', v')) kvs
      else if is_index k then
        takeWhile (\<lambda>(k', v'). goes_before k' k) kvs @ [(k, v)]
          @ dropWhile (\<lambda>(k', v'). goes_before k' k) kvs
      else kvs @ [(k, v)])"

definition props_of :: "(string \<times> 'v) list \<Rightarrow> (string \<times> 'v) list" where
  "props_of members = foldl (\<lambda>kvs (k, v). put kvs k v) [] members"

text \<open>
  Values, the elements of an array after its bracket, and the members of an object after
  its brace. The comparisons of lengths hold whenever they are reached, since a value
  takes at least one character; they make the recursion terminate.
\<close>

lemma length_skip_ws_eq: "length (skip_ws s) = length s - length (takeWhile is_ws s)"
proof -
  have "length (takeWhile is_ws s @ dropWhile is_ws s) = length s"
    by (simp only: takeWhile_dropWhile_id)
  then have "length (takeWhile is_ws s) + length (dropWhile is_ws s) = length s"
    by (simp only: length_append)
  then show ?thesis by (simp add: skip_ws_def)
qed

function parse_value :: "(string \<Rightarrow> 'n) \<Rightarrow> string \<Rightarrow> ('n jsval \<times> string) option"
  and parse_elems :: "(string \<Rightarrow> 'n) \<Rightarrow> string \<Rightarrow> ('n jsval list \<times> string) option"
  and parse_members :: "(string \<Rightarrow> 'n) \<Rightarrow> string \<Rightarrow> ((string \<times> 'n jsval) list \<times> string) option"
where
  "parse_value rd [] = None"
| "parse_value rd (c # r) =
     (if c = CHR ''['' then
        (if take 1 (skip_ws r) = '']'' then Some (JArr [], drop 1 (skip_ws r))
         else (case parse_elems rd (skip_ws r) of
                 None \<Rightarrow> None
               | Some (xs, t) \<Rightarrow> Some (JArr xs, t)))
      else if c = CHR ''{'' then
        (if take 1 (skip_ws r) = ''}'' then Some (JObj [], drop 1 (skip_ws r))
         else (case parse_members rd (skip_ws r) of
                 None \<Rightarrow> None
               | Some (ms, t) \<Rightarrow> Some (JObj (props_of ms), t)))
      else if c = CHR 0x22 then
        (case parse_chars r of None \<Rightarrow> None | Some (s, t) \<Rightarrow> Some (JStr s, t))
      else if take 4 (c # r) = ''true'' then Some (JBool True, drop 4 (c # r))
      else if take 5 (c # r) = ''false'' then Some (JBool False, drop 5 (c # r))
      else if take 4 (c # r) = ''null'' then Some (JNull, drop 4 (c # r))
      else parse_number rd (c # r))"
| "parse_elems rd s =
     (case parse_value rd s of
        None \<Rightarrow> None
      | Some (v, r) \<Rightarrow>
          (case skip_ws r of
             [] \<Rightarrow> None
           | c # r' \<Rightarrow>
               if c = CHR '']'' then Some ([v], r')
               else if c = CHR '','' \<and> length r' < length s then
                 (case parse_elems rd (skip_ws r') of
                    None \<Rightarrow> None
                  | Some (vs, t) \<Rightarrow> Some (v # vs, t))
               else None))"
| "parse_members rd s =
     (case s of
        [] \<Rightarrow> None
      | q # r \<Rightarrow>
          if q \<noteq> CHR 0x22 then None
          else
            (case parse_chars r of
               None \<Rightarrow> None
             | Some (k, r1) \<Rightarrow>
                 (case skip_ws r1 of
                    [] \<Rightarrow> None
                  | c # r2 \<Rightarrow>
                      if c \<noteq> CHR '':'' \<or> \<not> length r2 < length s then None
                      else
                        (case parse_value rd (skip_ws r2) of
                           None \<Rightarrow> None
                         | Some (v, r3) \<Rightarrow>
                             (case skip_ws r3 of
                                [] \<Rightarrow> None
                              | d # r4 \<Rightarrow>
                                  if d = CHR ''}'' then Some ([(k, v)], r4)
                                  else if d = CHR '','' \<and> length r4 < length s then
                                    (case parse_members rd (skip_ws r4) of
                                       None \<Rightarrow> None
                                     | Some (ms, t) \<Rightarrow> Some ((k, v) # ms, t))
                                  else None)))))"
  by pat_completeness auto
termination
  by (relation "measure (\<lambda>x. case x of
        Inl (rd, s) \<Rightarrow> 2 * length s
      | Inr (Inl (rd, s)) \<Rightarrow> 2 * length s + 1
      | Inr (Inr (rd, s)) \<Rightarrow> 2 * length s + 1)")
    (auto simp: length_skip_ws_eq)

declare parse_elems.simps [simp del] parse_members.simps [simp del]

definition JSON_parse_text :: "(string \<Rightarrow> 'n) \<Rightarrow> string \<Rightarrow> error + 'n jsval" where
  "JSON_parse_text rd s =
     (case parse_value rd (skip_ws s) of
        None \<Rightarrow> Inl SyntaxError
      | Some (v, r) \<Rightarrow> if skip_ws r = [] then Inr v else Inl SyntaxError)"

subsection \<open>Paths and files\<close>

text \<open>
  Both paths of the script are relative (\<^verbatim>\<open>./data/...\<close>), with \<^verbatim>\<open>/\<close> between the
  segments. A path names the file that its segments lead to from the working directory:
  empty segments and \<^verbatim>\<open>.\<close> stay in place, \<^verbatim>\<open>..\<close> goes one directory up (and stands
  first when it leaves the working directory). Two paths with the same resolution are the
  same file, two with different resolutions are different files: names are compared as
  written, and symbolic links are not modelled.
\<close>

fun split_path :: "string \<Rightarrow> string list" where
  "split_path [] = [[]]"
| "split_path (c # cs) =
     (if c = CHR ''/'' then [] # split_path cs
      else (case split_path cs of [] \<Rightarrow> [[c]] | s # ss \<Rightarrow> (c # s) # ss))"

fun walk :: "string list \<Rightarrow> string list \<Rightarrow> string list" where
  "walk st [] = rev st"
| "walk st (s # ss) =
     (if s = [] \<or> s = ''.'' then walk st ss
      else if s = ''..'' then
        (case st of
           [] \<Rightarrow> walk [''..''] ss
         | t # ts \<Rightarrow> if t = ''..'' then walk (''..'' # st) ss else walk ts ss)
      else walk (s # st) ss)"

definition resolve :: "string \<Rightarrow> string list" where
  "resolve p = walk [] (split_path p)"

text \<open>A file lies in a directory when the directory's segments start its own.\<close>

definition inside :: "string list \<Rightarrow> string list \<Rightarrow> bool" where
  "inside d f = (length d < length f \<and> take (length d) f = d)"

text \<open>
  The file system maps a file to its content. What else makes a read or a write fail
  (permissions, a missing directory, a full disk) is the environment's choice, the
  parameter \<open>W\<close>; a write that fails leaves the files as they were, one that succeeds
  replaces whatever the file held (flag \<^verbatim>\<open>w\<close>, the default of \<^verbatim>\<open>fs.writeFile\<close>).
\<close>

type_synonym filesys = "string list \<rightharpoonup> string"

record io =
  read_err :: "filesys \<Rightarrow> string \<Rightarrow> error option"
  write_err :: "filesys \<Rightarrow> string \<Rightarrow> string \<Rightarrow> error option"

definition readFile :: "io \<Rightarrow> filesys \<Rightarrow> string \<Rightarrow> error + string" where
  "readFile W fs p =
     (case fs (resolve p) of
        None \<Rightarrow> Inl ENOENT
      | Some c \<Rightarrow> (case read_err W fs p of Some e \<Rightarrow> Inl e | None \<Rightarrow> Inr c))"

definition writeFile :: "io \<Rightarrow> filesys \<Rightarrow> string \<Rightarrow> string \<Rightarrow> error + filesys" where
  "writeFile W fs p c =
     (case write_err W fs p c of Some e \<Rightarrow> Inl e | None \<Rightarrow> Inr (fs(resolve p \<mapsto> c)))"

subsection \<open>The script\<close>

text \<open>
  What the script is given: the parser (the theorems about the script hold for every
  one, \<open>JSON_parse_text\<close> among them), \<^verbatim>\<open>topojson.feature\<close> of the package \<^verbatim>\<open>topojson\<close>,
  and the text of a number. \<^verbatim>\<open>topojson.feature\<close> gets the object \<^verbatim>\<open>input\<close> by reference,
  so it returns, beside its result, the value that \<^verbatim>\<open>input\<close> holds after the call.
\<close>

record 'n ext =
  JSON_parse :: "string \<Rightarrow> error + 'n jsval"
  topojson_feature :: "'n jsval \<Rightarrow> 'n jsval \<Rightarrow> error + 'n jsval \<times> 'n jsval"
  number_text :: "'n \<Rightarrow> string"

text \<open>The world outside: the files, and the writes that completed, oldest first.\<close>

record world =
  files :: filesys
  written :: "(string \<times> string) list"

definition input_path :: string where
  "input_path = ''./data/swiss_stuffes.json''"

definition out_path :: "string \<Rightarrow> string" where
  "out_path key = ''./data/'' @ key @ ''.geojson''"

text \<open>
  One pass through the loop body for \<open>key\<close>: read \<^verbatim>\<open>input.objects[key]\<close>, decode,
  serialise, write. The result is the new value of \<^verbatim>\<open>input\<close> and the new world.
\<close>

definition body :: "'n ext \<Rightarrow> io \<Rightarrow> 'n jsval \<Rightarrow> world \<Rightarrow> string \<Rightarrow> error + 'n jsval \<times> world" where
  "body L W input w key =
     (case get_prop input ''objects'' of
        Inl e \<Rightarrow> Inl e
      | Inr objs \<Rightarrow>
     (case get_prop objs key of
        Inl e \<Rightarrow> Inl e
      | Inr obj \<Rightarrow>
     (case topojson_feature L input obj of
        Inl e \<Rightarrow> Inl e
      | Inr (geojson, input') \<Rightarrow>
     (case JSON_stringify (number_text L) geojson 2 of
        None \<Rightarrow> Inl TypeError
      | Some content \<Rightarrow>
     (case writeFile W (files w) (out_path key) content of
        Inl e \<Rightarrow> Inl e
      | Inr fs' \<Rightarrow>
          Inr (input', \<lparr>files = fs', written = written w @ [(out_path key, content)]\<rparr>))))))"

text \<open>The loop over the keys, which stops at the first error.\<close>

fun loop :: "'n ext \<Rightarrow> io \<Rightarrow> 'n jsval \<Rightarrow> world \<Rightarrow> string list \<Rightarrow> error option \<times> 'n jsval \<times> world" where
  "loop L W input w [] = (None, input, w)"
| "loop L W input w (key # keys) =
     (case body L W input w key of
        Inl e \<Rightarrow> (Some e, input, w)
      | Inr (input', w') \<Rightarrow> loop L W input' w' keys)"

text \<open>
  The whole run from a file system: the outcome (\<open>None\<close> is a normal exit), the value of
  \<^verbatim>\<open>input\<close> once it is bound, and the world at the end.
\<close>

definition convert :: "'n ext \<Rightarrow> io \<Rightarrow> filesys \<Rightarrow> error option \<times> 'n jsval option \<times> world" where
  "convert L W fs =
     (let w0 = \<lparr>files = fs, written = []\<rparr> in
      case readFile W fs input_path of
        Inl e \<Rightarrow> (Some e, None, w0)
      | Inr txt \<Rightarrow>
     (case JSON_parse L txt of
        Inl e \<Rightarrow> (Some e, None, w0)
      | Inr input \<Rightarrow>
     (case get_prop input ''objects'' of
        Inl e \<Rightarrow> (Some e, Some input, w0)
      | Inr objs \<Rightarrow>
     (case Object_entries objs of
        Inl e \<Rightarrow> (Some e, Some input, w0)
      | Inr entries \<Rightarrow>
          (case loop L W input w0 (map fst entries) of
             (r, input', w) \<Rightarrow> (r, Some input', w))))))"


section \<open>What a run computes\<close>

text \<open>Reading and parsing the input file, the first statement of the script.\<close>

definition load :: "'n ext \<Rightarrow> io \<Rightarrow> filesys \<Rightarrow> error + 'n jsval" where
  "load L W fs =
     (case readFile W fs input_path of Inl e \<Rightarrow> Inl e | Inr txt \<Rightarrow> JSON_parse L txt)"

text \<open>
  The decoding that the loop does, without the files: the results of \<^verbatim>\<open>topojson.feature\<close>
  for the keys in order, each call on the value \<^verbatim>\<open>input\<close> holds by then.
\<close>

fun decode_keys :: "'n ext \<Rightarrow> 'n jsval \<Rightarrow> string list \<Rightarrow> error + 'n jsval \<times> (string \<times> 'n jsval) list" where
  "decode_keys L input [] = Inr (input, [])"
| "decode_keys L input (key # keys) =
     (case get_prop input ''objects'' of
        Inl e \<Rightarrow> Inl e
      | Inr objs \<Rightarrow>
     (case get_prop objs key of
        Inl e \<Rightarrow> Inl e
      | Inr obj \<Rightarrow>
     (case topojson_feature L input obj of
        Inl e \<Rightarrow> Inl e
      | Inr (geojson, input1) \<Rightarrow>
     (case decode_keys L input1 keys of
        Inl e \<Rightarrow> Inl e
      | Inr (input', gs) \<Rightarrow> Inr (input', (key, geojson) # gs)))))"

text \<open>The files after a list of writes, each replacing what its file held.\<close>

fun apply_writes :: "filesys \<Rightarrow> (string \<times> string) list \<Rightarrow> filesys" where
  "apply_writes fs [] = fs"
| "apply_writes fs ((p, c) # ws) = apply_writes (fs(resolve p \<mapsto> c)) ws"

text \<open>The files a run wrote, each once.\<close>

definition output_files :: "world \<Rightarrow> string list list" where
  "output_files w = remdups (map (\<lambda>(p, c). resolve p) (written w))"

text \<open>
  A value that JSON can hold, for the number texts \<open>nt\<close> and the number reader \<open>rd\<close>:
  no undefined in it, every number written as a JSON number that reads back as the same
  number, and every object with its properties as \<open>props_of\<close> orders them.
\<close>

fun json_ok :: "('n \<Rightarrow> string) \<Rightarrow> (string \<Rightarrow> 'n) \<Rightarrow> 'n jsval \<Rightarrow> bool"
  and all_ok :: "('n \<Rightarrow> string) \<Rightarrow> (string \<Rightarrow> 'n) \<Rightarrow> 'n jsval list \<Rightarrow> bool"
  and members_ok :: "('n \<Rightarrow> string) \<Rightarrow> (string \<Rightarrow> 'n) \<Rightarrow> (string \<times> 'n jsval) list \<Rightarrow> bool"
where
  "json_ok nt rd JUndefined = False"
| "json_ok nt rd JNull = True"
| "json_ok nt rd (JBool b) = True"
| "json_ok nt rd (JNum n) = (valid_number (nt n) \<and> rd (nt n) = n)"
| "json_ok nt rd (JStr s) = True"
| "json_ok nt rd (JArr xs) = all_ok nt rd xs"
| "json_ok nt rd (JObj kvs) = (props_of kvs = kvs \<and> members_ok nt rd kvs)"
| "all_ok nt rd [] = True"
| "all_ok nt rd (x # xs) = (json_ok nt rd x \<and> all_ok nt rd xs)"
| "members_ok nt rd [] = True"
| "members_ok nt rd ((k, v) # kvs) = (json_ok nt rd v \<and> members_ok nt rd kvs)"

text \<open>
  For the proofs about the serialiser and the parser: the characters a value can start
  with, a rest that ends a number, and the white space and the colon that \<open>bracket\<close> and
  \<open>ser_props\<close> put between the parts.
\<close>

definition starts_value :: "char \<Rightarrow> bool" where
  "starts_value c = (c = CHR ''['' \<or> c = CHR ''{'' \<or> c = CHR 0x22 \<or> c = CHR ''t'' \<or> c = CHR ''f''
     \<or> c = CHR ''n'' \<or> c = CHR ''-'' \<or> is_digit c)"

definition ends_token :: "string \<Rightarrow> bool" where
  "ends_token rest = (case rest of [] \<Rightarrow> True | c # r \<Rightarrow> \<not> num_char c)"

definition pad :: "string \<Rightarrow> string \<Rightarrow> string" where
  "pad gap i = (if gap = [] then [] else CHR 0x0A # i)"

definition colon :: "string \<Rightarrow> string" where
  "colon gap = CHR '':'' # (if gap = [] then [] else '' '')"

section \<open>A decoder and sample documents\<close>

text \<open>
  Modelled from the spec: \<^verbatim>\<open>topojson.feature\<close>, the decoder of the third-party package
  \<^verbatim>\<open>topojson\<close>, whose code is not among the sources. The spec says of it: "resolve its
  geometry (point, line, polygon, or collection thereof) against the shared arc data,
  reconstructing absolute coordinate sequences from the topology's delta/arc encoding,
  and wrap the result(s) as a standard feature or feature-collection", and of an arc:
  "a shared polyline segment, stored as a sequence of coordinate deltas, referenced by
  index". The definitions from \<open>member\<close> to \<open>feature_model\<close> follow these words, with the
  member names of TopoJSON and GeoJSON; coordinates are integers. The theorems about the
  script hold for every decoder; this one decides the claim about the decoded ring and
  serves in the examples.
\<close>

text \<open>Modelled from the spec: the member of an object, undefined elsewhere.\<close>

definition member :: "'n jsval \<Rightarrow> string \<Rightarrow> 'n jsval" where
  "member v k = (case v of JObj kvs \<Rightarrow> own_prop kvs k | _ \<Rightarrow> JUndefined)"

text \<open>Modelled from the spec: a coordinate pair.\<close>

fun position :: "int jsval \<Rightarrow> (int \<times> int) option" where
  "position (JArr [JNum x, JNum y]) = Some (x, y)"
| "position _ = None"

text \<open>
  Modelled from the spec: delta decoding. Each pair of an arc is the step from the point
  before it, the first one from the origin.
\<close>

fun absolute :: "int \<times> int \<Rightarrow> (int \<times> int) list \<Rightarrow> (int \<times> int) list" where
  "absolute p [] = []"
| "absolute (x, y) ((dx, dy) # ds) = (x + dx, y + dy) # absolute (x + dx, y + dy) ds"

text \<open>Modelled from the spec: the absolute points of one arc of the table.\<close>

definition decode_arc :: "int jsval \<Rightarrow> (int \<times> int) list option" where
  "decode_arc a =
     (case a of JArr ps \<Rightarrow> map_option (absolute (0, 0)) (those (map position ps)) | _ \<Rightarrow> None)"

text \<open>Modelled from the spec: an arc referenced by its index in the shared table.\<close>

definition arc_at :: "int jsval list \<Rightarrow> int jsval \<Rightarrow> (int \<times> int) list option" where
  "arc_at arcs i =
     (case i of
        JNum n \<Rightarrow> if 0 \<le> n \<and> nat n < length arcs then decode_arc (arcs ! nat n) else None
      | _ \<Rightarrow> None)"

text \<open>Modelled from the spec: a line or a ring, the points of the arcs it references.\<close>

definition line :: "int jsval list \<Rightarrow> int jsval \<Rightarrow> (int \<times> int) list option" where
  "line arcs refs =
     (case refs of JArr is \<Rightarrow> map_option concat (those (map (arc_at arcs) is)) | _ \<Rightarrow> None)"

text \<open>Modelled from the spec: a coordinate sequence as a value.\<close>

definition coords :: "(int \<times> int) list \<Rightarrow> int jsval" where
  "coords ps = JArr (map (\<lambda>(x, y). JArr [JNum x, JNum y]) ps)"

text \<open>Modelled from the spec: the geometry of a point, a line or a polygon.\<close>

definition geometry :: "int jsval list \<Rightarrow> int jsval \<Rightarrow> int jsval option" where
  "geometry arcs g =
     (let geo = (\<lambda>t c. JObj [(''type'', JStr t), (''coordinates'', c)]) in
      case member g ''type'' of
        JStr t \<Rightarrow>
          if t = ''Point'' then
            (case position (member g ''coordinates'') of
               Some (x, y) \<Rightarrow> Some (geo t (JArr [JNum x, JNum y]))
             | None \<Rightarrow> None)
          else if t = ''LineString'' then
            map_option (\<lambda>ps. geo t (coords ps)) (line arcs (member g ''arcs''))
          else if t = ''Polygon'' then
            (case member g ''arcs'' of
               JArr rings \<Rightarrow>
                 map_option (\<lambda>rs. geo t (JArr (map coords rs))) (those (map (line arcs) rings))
             | _ \<Rightarrow> None)
          else None
      | _ \<Rightarrow> None)"

text \<open>Modelled from the spec: a feature pairs a geometry with its optional properties.\<close>

definition as_feature :: "int jsval list \<Rightarrow> int jsval \<Rightarrow> int jsval option" where
  "as_feature arcs g =
     map_option
       (\<lambda>geo. JObj [(''type'', JStr ''Feature''),
                    (''properties'',
                       if member g ''properties'' = JUndefined then JObj []
                       else member g ''properties''),
                    (''geometry'', geo)])
       (geometry arcs g)"

text \<open>
  Modelled from the spec: \<^verbatim>\<open>topojson.feature(topology, obj)\<close>. A collection of geometries
  gives a feature collection, a single geometry a feature; a geometry that does not fit
  the arc table is a decode error. The topology is left as it was.
\<close>

definition feature_model :: "int jsval \<Rightarrow> int jsval \<Rightarrow> error + int jsval \<times> int jsval" where
  "feature_model topology obj =
     (case member topology ''arcs'' of
        JArr arcs \<Rightarrow>
          if member obj ''type'' = JStr ''GeometryCollection'' then
            (case member obj ''geometries'' of
               JArr gs \<Rightarrow>
                 (case those (map (as_feature arcs) gs) of
                    Some fs \<Rightarrow>
                      Inr (JObj [(''type'', JStr ''FeatureCollection''), (''features'', JArr fs)],
                           topology)
                  | None \<Rightarrow> Inl (Thrown ''decode''))
             | _ \<Rightarrow> Inl (Thrown ''decode''))
          else
            (case as_feature arcs obj of
               Some f \<Rightarrow> Inr (f, topology)
             | None \<Rightarrow> Inl (Thrown ''decode''))
      | _ \<Rightarrow> Inl (Thrown ''decode''))"

subsection \<open>An environment for the examples\<close>

text \<open>The text of an integer.\<close>

definition show_int :: "int \<Rightarrow> string" where
  "show_int i = (if i < 0 then CHR ''-'' # dec (nat (- i)) else dec (nat i))"

text \<open>The integer of a numeric literal without fraction and exponent, as \<open>show_int\<close> writes one.\<close>

definition read_int :: "string \<Rightarrow> int" where
  "read_int s =
     (case s of
        [] \<Rightarrow> 0
      | c # r \<Rightarrow> if c = CHR ''-'' then - digits_value 0 r else digits_value 0 s)"

text \<open>
  The examples run with the parser \<open>JSON_parse_text\<close> and the decoder \<open>feature_model\<close>, on
  a file system whose input file holds the JSON text of a document.
\<close>

definition example_ext :: "int ext" where
  "example_ext =
     \<lparr>JSON_parse = JSON_parse_text read_int,
      topojson_feature = feature_model,
      number_text = show_int\<rparr>"

definition text_of :: "int jsval \<Rightarrow> string" where
  "text_of v = (case JSON_stringify show_int v 0 of Some t \<Rightarrow> t | None \<Rightarrow> [])"

text \<open>Every read succeeds; a write fails on the paths listed.\<close>

definition example_io :: "string list \<Rightarrow> io" where
  "example_io locked =
     \<lparr>read_err = (\<lambda>fs p. None),
      write_err = (\<lambda>fs p c. if p \<in> set locked then Some (Thrown ''EACCES'') else None)\<rparr>"

definition holding :: "int jsval \<Rightarrow> filesys" where
  "holding doc = [resolve input_path \<mapsto> text_of doc]"

text \<open>
  A polygon whose one ring is arc 0, a line that references an arc the table does not
  have, and a table of one arc: a triangle, closed by its last step.
\<close>

definition polygon :: "int jsval" where
  "polygon = JObj [(''type'', JStr ''Polygon''), (''arcs'', JArr [JArr [JNum 0]])]"

definition dangling :: "int jsval" where
  "dangling = JObj [(''type'', JStr ''LineString''), (''arcs'', JArr [JNum 7])]"

definition triangle :: "(int \<times> int) list" where
  "triangle = [(0, 0), (4, 0), (0, 3), (- 4, - 3)]"

definition topology_with :: "(string \<times> int jsval) list \<Rightarrow> int jsval" where
  "topology_with objs =
     JObj [(''type'', JStr ''Topology''),
           (''arcs'', JArr [coords triangle]),
           (''objects'', JObj objs)]"

definition failing_objects :: "(string \<times> int jsval) list" where
  "failing_objects = [(''ok'', polygon), (''bad'', dangling), (''later'', polygon)]"

definition alias_objects :: "(string \<times> int jsval) list" where
  "alias_objects = [(''a'', polygon), (''./a'', polygon)]"

definition escaping_objects :: "(string \<times> int jsval) list" where
  "escaping_objects = [(''../x'', polygon)]"

definition plain_objects :: "(string \<times> int jsval) list" where
  "plain_objects = [(''ok'', polygon), (''more'', polygon)]"

text \<open>
  The minimal topology: the one key \<^verbatim>\<open>region\<close>, bound to \<open>entry\<close>, and a table of one arc
  given by its deltas \<open>ds\<close>. TopoJSON keeps delta-encoded arcs together with a transform of
  the decoded points; the one here is the identity. The entry is the polygon itself, or a
  geometry collection that holds it. The ring expected has, as its point \<open>i\<close>, the sum of
  the deltas up to \<open>i\<close>.
\<close>

definition polygon_collection :: "int jsval" where
  "polygon_collection =
     JObj [(''type'', JStr ''GeometryCollection''), (''geometries'', JArr [polygon])]"

definition region_topology :: "int jsval \<Rightarrow> (int \<times> int) list \<Rightarrow> int jsval" where
  "region_topology entry ds =
     JObj [(''type'', JStr ''Topology''),
           (''transform'',
              JObj [(''scale'', JArr [JNum 1, JNum 1]), (''translate'', JArr [JNum 0, JNum 0])]),
           (''arcs'', JArr [coords ds]),
           (''objects'', JObj [(''region'', entry)])]"

definition expected_ring :: "(int \<times> int) list \<Rightarrow> (int \<times> int) list" where
  "expected_ring ds =
     map (\<lambda>i. (sum_list (map fst (take (Suc i) ds)), sum_list (map snd (take (Suc i) ds))))
       [0..<length ds]"

text \<open>The feature of a polygon with the one ring, and the collection of that one feature.\<close>

definition region_feature :: "(int \<times> int) list \<Rightarrow> int jsval" where
  "region_feature ring =
     JObj [(''type'', JStr ''Feature''),
           (''properties'', JObj []),
           (''geometry'',
              JObj [(''type'', JStr ''Polygon''), (''coordinates'', JArr [coords ring])])]"

definition region_geojson :: "(int \<times> int) list \<Rightarrow> int jsval" where
  "region_geojson ring =
     JObj [(''type'', JStr ''FeatureCollection''), (''features'', JArr [region_feature ring])]"

subsection \<open>Points taken as found\<close>









section \<open>Lemmas\<close>

subsection \<open>Paths\<close>

lemma split_path_nosep: "CHR ''/'' \<notin> set s \<Longrightarrow> split_path s = [s]"
  by (induction s) auto

lemma split_path_not_Nil: "split_path s \<noteq> []"
  by (induction s) (auto split: list.splits)

lemma split_path_append_nosep:
  "CHR ''/'' \<notin> set q \<Longrightarrow>
   split_path (p @ q) = butlast (split_path p) @ [last (split_path p) @ q]"
  by (induction p) (auto simp: split_path_nosep split_path_not_Nil split: list.splits)

lemma walk_snoc:
  "s \<noteq> [] \<Longrightarrow> s \<noteq> ''.'' \<Longrightarrow> s \<noteq> ''..'' \<Longrightarrow> walk st (ss @ [s]) = walk st ss @ [s]"
  by (induction st ss rule: walk.induct) (auto split: list.splits)

lemma resolve_input_path: "resolve input_path = [''data'', ''swiss_stuffes.json'']"
  by (simp add: resolve_def input_path_def)

lemma resolve_out_flat:
  "CHR ''/'' \<notin> set k \<Longrightarrow> resolve (out_path k) = [''data'', k @ ''.geojson'']"
  by (simp add: resolve_def out_path_def split_path_nosep)

lemma resolve_out_parent:
  "CHR ''/'' \<notin> set n \<Longrightarrow> resolve (out_path (''../'' @ n)) = [n @ ''.geojson'']"
  by (simp add: resolve_def out_path_def split_path_nosep)

lemma resolve_out_last: "\<exists>pre seg. resolve (out_path k) = pre @ [seg @ ''.geojson'']"
proof -
  have "out_path k = (''./data/'' @ k) @ ''.geojson''" by (simp add: out_path_def)
  then have "split_path (out_path k)
      = butlast (split_path (''./data/'' @ k)) @ [last (split_path (''./data/'' @ k)) @ ''.geojson'']"
    using split_path_append_nosep[of "''.geojson''" "''./data/'' @ k"] by simp
  then have "resolve (out_path k)
      = walk [] (butlast (split_path (''./data/'' @ k))) @ [last (split_path (''./data/'' @ k)) @ ''.geojson'']"
    unfolding resolve_def by (simp add: walk_snoc)
  then show ?thesis by blast
qed

lemma not_input_name: "seg @ ''.geojson'' \<noteq> ''swiss_stuffes.json''"
  using arg_cong[of "seg @ ''.geojson''" "''swiss_stuffes.json''" rev] by auto

lemma resolve_out_not_input: "resolve (out_path k) \<noteq> resolve input_path"
proof
  assume e: "resolve (out_path k) = resolve input_path"
  obtain pre seg where p: "resolve (out_path k) = pre @ [seg @ ''.geojson'']"
    using resolve_out_last by blast
  from e p have "last (pre @ [seg @ ''.geojson'']) = last [''data'', ''swiss_stuffes.json'']"
    by (simp only: resolve_input_path)
  then show False using not_input_name[of seg] by simp
qed

lemma out_path_inj: "out_path a = out_path b \<longleftrightarrow> a = b"
  by (simp add: out_path_def)

subsection \<open>Writes\<close>

lemma apply_writes_map_add:
  "apply_writes fs ws = fs ++ map_of (rev (map (\<lambda>(p, c). (resolve p, c)) ws))"
proof (induction ws arbitrary: fs)
  case Nil
  then show ?case by simp
next
  case (Cons a ws)
  obtain p c where a: "a = (p, c)" by (cases a)
  have "fs(resolve p \<mapsto> c) = fs ++ [resolve p \<mapsto> c]" by simp
  then show ?case
    unfolding a by (simp add: Cons.IH map_add_assoc del: map_add_upd)
qed

lemma map_add_twice: "(f ++ m) ++ m = f ++ m"
  by (rule ext) (simp add: map_add_def split: option.splits)

lemma apply_writes_twice:
  "apply_writes (apply_writes fs ws) ws = apply_writes fs ws"
  by (simp add: apply_writes_map_add[of _ ws] map_add_twice)

lemma apply_writes_other:
  "q \<notin> (\<lambda>(p, c). resolve p) ` set ws \<Longrightarrow> apply_writes fs ws q = fs q"
  by (induction ws arbitrary: fs) auto

lemma apply_writes_hit:
  "q \<in> (\<lambda>(p, c). resolve p) ` set ws \<Longrightarrow> apply_writes fs ws q \<noteq> None"
proof (induction ws arbitrary: fs)
  case Nil
  then show ?case by simp
next
  case (Cons a ws)
  obtain p c where a: "a = (p, c)" by (cases a)
  show ?case
  proof (cases "q \<in> (\<lambda>(p, c). resolve p) ` set ws")
    case True
    then show ?thesis using Cons.IH a by simp
  next
    case False
    with Cons.prems a have "q = resolve p" by auto
    with False a show ?thesis by (simp add: apply_writes_other)
  qed
qed

subsection \<open>The loop and the run\<close>

lemma body_Inr:
  "body L W input w key = Inr (input', w') \<longleftrightarrow>
   (\<exists>objs obj g c.
      get_prop input ''objects'' = Inr objs \<and> get_prop objs key = Inr obj \<and>
      topojson_feature L input obj = Inr (g, input') \<and>
      JSON_stringify (number_text L) g 2 = Some c \<and>
      write_err W (files w) (out_path key) c = None \<and>
      w' = \<lparr>files = (files w)(resolve (out_path key) \<mapsto> c),
            written = written w @ [(out_path key, c)]\<rparr>)"
  by (auto simp: body_def writeFile_def split: sum.splits option.splits prod.splits)

lemma loop_success:
  "loop L W input w keys = (None, input', w') \<Longrightarrow>
   \<exists>gs ws. decode_keys L input keys = Inr (input', gs) \<and> map fst gs = keys \<and>
     map (\<lambda>(p, c). (p, Some c)) ws
       = map (\<lambda>(k, g). (out_path k, JSON_stringify (number_text L) g 2)) gs \<and>
     written w' = written w @ ws \<and> files w' = apply_writes (files w) ws"
proof (induction keys arbitrary: input w)
  case Nil
  then show ?case by simp
next
  case (Cons key keys)
  from Cons.prems obtain input1 w1 where
    b: "body L W input w key = Inr (input1, w1)" and
    l: "loop L W input1 w1 keys = (None, input', w')"
    by (auto split: sum.splits)
  from b obtain objs obj g c where
    s: "get_prop input ''objects'' = Inr objs" "get_prop objs key = Inr obj"
       "topojson_feature L input obj = Inr (g, input1)"
       "JSON_stringify (number_text L) g 2 = Some c"
       "w1 = \<lparr>files = (files w)(resolve (out_path key) \<mapsto> c),
              written = written w @ [(out_path key, c)]\<rparr>"
    unfolding body_Inr by blast
  from Cons.IH[OF l] obtain gs ws where
    r: "decode_keys L input1 keys = Inr (input', gs)" "map fst gs = keys"
       "map (\<lambda>(p, c). (p, Some c)) ws
          = map (\<lambda>(k, g). (out_path k, JSON_stringify (number_text L) g 2)) gs"
       "written w' = written w1 @ ws" "files w' = apply_writes (files w1) ws"
    by blast
  show ?case
    apply (rule exI[of _ "(key, g) # gs"])
    apply (rule exI[of _ "(out_path key, c) # ws"])
    using s r by simp
qed

lemma loop_writes:
  "loop L W input w keys = (None, input', w') \<Longrightarrow>
   \<exists>ws. map fst ws = map out_path keys \<and> written w' = written w @ ws \<and>
     files w' = apply_writes (files w) ws"
proof -
  assume "loop L W input w keys = (None, input', w')"
  from loop_success[OF this] obtain gs ws where
    r: "map fst gs = keys"
       "map (\<lambda>(p, c). (p, Some c)) ws
          = map (\<lambda>(k, g). (out_path k, JSON_stringify (number_text L) g 2)) gs"
       "written w' = written w @ ws" "files w' = apply_writes (files w) ws"
    by blast
  from r(2) have "map fst (map (\<lambda>(p, c). (p, Some c)) ws)
      = map fst (map (\<lambda>(k, g). (out_path k, JSON_stringify (number_text L) g 2)) gs)"
    by simp
  then have "map fst ws = map out_path (map fst gs)"
    by (simp add: comp_def case_prod_unfold)
  with r show ?thesis by blast
qed

lemma loop_prefix:
  "loop L W input w before = (None, input1, w1) \<Longrightarrow>
   loop L W input w (before @ keys) = loop L W input1 w1 keys"
  by (induction before arbitrary: input w) (auto split: sum.splits)

lemma loop_failure:
  "loop L W input w keys = (Some e, input', w') \<Longrightarrow>
   \<exists>before key after. keys = before @ key # after \<and>
     loop L W input w before = (None, input', w') \<and> body L W input' w' key = Inl e"
proof (induction keys arbitrary: input w)
  case Nil
  then show ?case by simp
next
  case (Cons k keys)
  show ?case
  proof (cases "body L W input w k")
    case (Inl e')
    with Cons.prems have "e' = e" "input' = input" "w' = w" by auto
    with Inl show ?thesis by (intro exI[of _ "[]"] exI[of _ k] exI[of _ keys]) simp
  next
    case (Inr r)
    obtain input1 w1 where r: "r = (input1, w1)" by (cases r)
    with Inr Cons.prems have "loop L W input1 w1 keys = (Some e, input', w')" by simp
    from Cons.IH[OF this] obtain before key after where
      "keys = before @ key # after" "loop L W input1 w1 before = (None, input', w')"
      "body L W input' w' key = Inl e" by blast
    with Inr r show ?thesis
      by (intro exI[of _ "k # before"] exI[of _ key] exI[of _ after]) simp
  qed
qed

lemma loop_input:
  "\<forall>input obj g input'. topojson_feature L input obj = Inr (g, input') \<longrightarrow> input' = input \<Longrightarrow>
   loop L W input w keys = (r, input', w') \<Longrightarrow> input' = input"
proof (induction keys arbitrary: w)
  case Nil
  then show ?case by simp
next
  case (Cons k keys)
  show ?case
  proof (cases "body L W input w k")
    case (Inl e)
    with Cons.prems show ?thesis by simp
  next
    case (Inr p)
    obtain input1 w1 where p: "p = (input1, w1)" by (cases p)
    from Inr p have "body L W input w k = Inr (input1, w1)" by simp
    then have "input1 = input" using Cons.prems(1) unfolding body_Inr by blast
    with Inr p Cons.prems(2) have "loop L W input w1 keys = (r, input', w')" by simp
    from Cons.IH[OF Cons.prems(1) this] show ?thesis .
  qed
qed

lemma convert_loaded:
  "load L W fs = Inr input \<Longrightarrow> get_prop input ''objects'' = Inr objs \<Longrightarrow>
   Object_entries objs = Inr ents \<Longrightarrow>
   convert L W fs =
     (case loop L W input \<lparr>files = fs, written = []\<rparr> (map fst ents) of
        (r, input', w) \<Rightarrow> (r, Some input', w))"
  by (auto simp: convert_def load_def Let_def split: sum.splits)

lemma convert_success:
  "convert L W fs = (None, d, w) \<Longrightarrow>
   \<exists>tx input objs ents input'.
     fs (resolve input_path) = Some tx \<and> JSON_parse L tx = Inr input \<and>
     get_prop input ''objects'' = Inr objs \<and> Object_entries objs = Inr ents \<and>
     loop L W input \<lparr>files = fs, written = []\<rparr> (map fst ents) = (None, input', w) \<and>
     d = Some input'"
  by (auto simp: convert_def readFile_def Let_def split: sum.splits option.splits prod.splits)

lemma success_triple:
  "fst r = None \<Longrightarrow> r = (None, fst (snd r), snd (snd r))"
  by (simp add: prod_eq_iff)


subsection \<open>The decoder and the examples\<close>

lemma feature_model_reads_only:
  "feature_model input obj = Inr (g, input') \<Longrightarrow> input' = input"
  by (auto simp: feature_model_def split: jsval.splits if_splits option.splits)

lemma those_position:
  "those (map (position \<circ> (\<lambda>(x, y). JArr [JNum x, JNum y])) ds) = Some ds"
  by (induction ds) auto

lemma absolute_sums:
  "absolute (a, b) ds =
     map (\<lambda>i. (a + sum_list (map fst (take (Suc i) ds)), b + sum_list (map snd (take (Suc i) ds))))
       [0..<length ds]"
proof (induction ds arbitrary: a b)
  case Nil
  then show ?case by simp
next
  case (Cons d ds)
  obtain dx dy where d: "d = (dx, dy)" by (cases d)
  show ?case
    unfolding d by (simp add: Cons.IH map_upt_Suc add.assoc del: upt_Suc)
qed

lemma absolute_expected: "absolute (0, 0) ds = expected_ring ds"
  by (simp add: absolute_sums expected_ring_def)

subsection \<open>Parsing what was serialised\<close>

lemma unhex_hex_digit: "d < 16 \<Longrightarrow> unhex (hex_digit d) = Some d"
  by (auto simp: unhex_def hex_digit_def Let_def)

lemma unhex_zero: "unhex (CHR ''0'') = Some 0"
  by (simp add: unhex_def)

lemma code_unit_control:
  "(of_char c :: nat) < 32 \<Longrightarrow>
   code_unit (CHR ''0'') (CHR ''0'') (hex_digit (of_char c div 16)) (hex_digit (of_char c mod 16))
     = Some c"
proof -
  assume "(of_char c :: nat) < 32"
  then have "(of_char c :: nat) div 16 < 16" by simp
  moreover have "(of_char c :: nat) mod 16 < 16" by simp
  ultimately show ?thesis
    by (simp add: code_unit_def unhex_zero unhex_hex_digit)
qed

lemma parse_chars_quote_char:
  "parse_chars (quote_char c @ t)
     = (case parse_chars t of None \<Rightarrow> None | Some (s, t') \<Rightarrow> Some (c # s, t'))"
  by (auto simp: quote_char_def unescape_def code_unit_control split: option.splits)

lemma parse_chars_quoted:
  "parse_chars (concat (map quote_char s) @ CHR 0x22 # rest) = Some (s, rest)"
  by (induction s) (simp_all add: parse_chars_quote_char)

lemma skip_ws_ws: "list_all is_ws w \<Longrightarrow> skip_ws (w @ t) = skip_ws t"
  by (induction w) (auto simp: skip_ws_def)

lemma skip_ws_start: "\<not> is_ws c \<Longrightarrow> skip_ws (c # t) = c # t"
  by (simp add: skip_ws_def)

lemma starts_value_not_ws: "starts_value c \<Longrightarrow> \<not> is_ws c"
  by (auto simp: starts_value_def is_ws_def is_digit_def)

lemma digit_num_char: "list_all is_digit s \<Longrightarrow> list_all num_char s"
  by (induction s) (auto simp: num_char_def)

lemma takeWhile_digit_num: "list_all num_char (takeWhile is_digit s)"
  by (induction s) (auto simp: num_char_def)

lemma valid_exp_chars: "valid_exp s \<Longrightarrow> list_all num_char s"
  by (auto simp: valid_exp_def Let_def num_char_def digit_num_char split: list.splits if_splits)

lemma valid_frac_chars: "valid_frac s \<Longrightarrow> list_all num_char s"
proof (cases s)
  case Nil
  then show ?thesis by simp
next
  case (Cons c r)
  assume v: "valid_frac s"
  show ?thesis
  proof (cases "c = CHR ''.''")
    case True
    with v Cons have "valid_exp (dropWhile is_digit r)" by (simp add: valid_frac_def)
    then have "list_all num_char (takeWhile is_digit r @ dropWhile is_digit r)"
      by (simp add: valid_exp_chars takeWhile_digit_num del: takeWhile_dropWhile_id)
    with True Cons show ?thesis by (simp add: num_char_def)
  next
    case False
    with v Cons have "valid_exp s" by (simp add: valid_frac_def)
    then show ?thesis by (rule valid_exp_chars)
  qed
qed

lemma valid_number_chars: "valid_number s \<Longrightarrow> list_all num_char s"
proof -
  assume v: "valid_number s"
  define u where "u = (case s of [] \<Rightarrow> [] | c # r \<Rightarrow> if c = CHR ''-'' then r else s)"
  from v have "valid_frac (dropWhile is_digit u)"
    by (simp add: valid_number_def Let_def u_def)
  then have "list_all num_char (takeWhile is_digit u @ dropWhile is_digit u)"
    by (simp add: valid_frac_chars takeWhile_digit_num del: takeWhile_dropWhile_id)
  then have "list_all num_char u" by simp
  then show ?thesis
    by (auto simp: u_def num_char_def split: list.splits if_splits)
qed

lemma valid_number_start: "valid_number s \<Longrightarrow> \<exists>c r. s = c # r \<and> (c = CHR ''-'' \<or> is_digit c)"
proof (cases s)
  case Nil
  assume "valid_number s"
  with Nil show ?thesis by (simp add: valid_number_def)
next
  case (Cons c r)
  assume v: "valid_number s"
  show ?thesis
  proof (cases "c = CHR ''-''")
    case True
    with Cons show ?thesis by simp
  next
    case False
    with v Cons have "takeWhile is_digit (c # r) \<noteq> []"
      by (auto simp: valid_number_def Let_def split: if_splits)
    then have "is_digit c" by (auto split: if_splits)
    with Cons show ?thesis by simp
  qed
qed

lemma takeWhile_token:
  "list_all num_char tok \<Longrightarrow> ends_token rest \<Longrightarrow>
   takeWhile num_char (tok @ rest) = tok \<and> dropWhile num_char (tok @ rest) = rest"
  by (induction tok) (auto simp: ends_token_def split: list.splits)

lemma parse_number_token:
  "valid_number tok \<Longrightarrow> ends_token rest \<Longrightarrow>
   parse_number rd (tok @ rest) = Some (JNum (rd tok), rest)"
  by (simp add: parse_number_def Let_def takeWhile_token valid_number_chars)

lemma parse_value_number:
  assumes "valid_number tok" "ends_token rest"
  shows "parse_value rd (tok @ rest) = Some (JNum (rd tok), rest)"
proof -
  from valid_number_start[OF assms(1)] obtain c r where
    t: "tok = c # r" "c = CHR ''-'' \<or> is_digit c" by blast
  then have "c \<noteq> CHR ''[''" "c \<noteq> CHR ''{''" "c \<noteq> CHR 0x22" "c \<noteq> CHR ''t''" "c \<noteq> CHR ''f''"
    "c \<noteq> CHR ''n''"
    by (auto simp: is_digit_def)
  then have "parse_value rd (c # r @ rest) = parse_number rd (c # r @ rest)"
    by simp
  with parse_number_token[OF assms] t show ?thesis by simp
qed

lemma pad_ws: "list_all is_ws i \<Longrightarrow> list_all is_ws (pad gap i)"
  by (simp add: pad_def is_ws_def)

lemma bracket_parts:
  "parts \<noteq> [] \<Longrightarrow>
   bracket l r gap ind parts
     = l # pad gap (ind @ gap) @ join (CHR '','' # pad gap (ind @ gap)) parts @ pad gap ind @ [r]"
  by (simp add: bracket_def pad_def)

lemma ser_defined: "json_ok nt rd v \<Longrightarrow> \<exists>t. ser nt gap ind v = Some t"
  by (cases v) auto

lemma ser_starts:
  "json_ok nt rd v \<Longrightarrow> ser nt gap ind v = Some t \<Longrightarrow> \<exists>c r. t = c # r \<and> starts_value c"
proof (cases v)
  case (JNum n)
  assume "json_ok nt rd v" "ser nt gap ind v = Some t"
  with JNum have "valid_number t" by auto
  from valid_number_start[OF this] show ?thesis by (auto simp: starts_value_def)
next
  case (JArr xs)
  assume "ser nt gap ind v = Some t"
  with JArr show ?thesis by (auto simp: bracket_def starts_value_def)
next
  case (JObj kvs)
  assume "ser nt gap ind v = Some t"
  with JObj show ?thesis by (auto simp: bracket_def starts_value_def)
qed (auto simp: starts_value_def quote_def)

lemma ends_token_ws: "list_all is_ws w \<Longrightarrow> \<not> num_char c \<Longrightarrow> ends_token (w @ c # rest)"
  by (cases w) (auto simp: ends_token_def is_ws_def num_char_def is_digit_def)

lemma ends_token_comma: "ends_token (CHR '','' # rest)"
  by (simp add: ends_token_def num_char_def is_digit_def)

lemma skip_ws_to: "list_all is_ws w \<Longrightarrow> \<not> is_ws c \<Longrightarrow> skip_ws (w @ c # rest) = c # rest"
  by (simp add: skip_ws_ws skip_ws_start)

lemma ser_elems_ok:
  "all_ok nt rd xs \<Longrightarrow> xs \<noteq> [] \<Longrightarrow>
   \<exists>t ts. ser nt gap i (hd xs) = Some t \<and> ser_elems nt gap i xs = t # ts"
  by (cases xs) (auto dest: ser_defined[where gap = gap and ind = i])

lemma parse_elems_join:
  assumes el: "\<And>x t rest. x \<in> set xs \<Longrightarrow> ends_token rest \<Longrightarrow> ser nt gap i x = Some t \<Longrightarrow>
      parse_value rd (t @ rest) = Some (x, rest)"
    and ok: "all_ok nt rd xs"
    and ne: "xs \<noteq> []"
    and ws: "list_all is_ws p" "list_all is_ws w"
  shows "parse_elems rd (join (CHR '','' # p) (ser_elems nt gap i xs) @ w @ CHR '']'' # rest)
     = Some (xs, rest)"
  using el ok ne
proof (induction xs)
  case Nil
  then show ?case by simp
next
  case (Cons x xs)
  from Cons.prems(2) obtain t where t: "ser nt gap i x = Some t"
    using ser_defined[of nt rd x gap i] by auto
  have nb: "\<not> num_char (CHR '']'')" "\<not> is_ws (CHR '']'')" "\<not> is_ws (CHR '','')"
    by (simp_all add: num_char_def is_digit_def is_ws_def)
  show ?case
  proof (cases xs)
    case Nil
    have "parse_value rd (t @ w @ CHR '']'' # rest) = Some (x, w @ CHR '']'' # rest)"
      using Cons.prems(1)[of x "w @ CHR '']'' # rest" t] t ends_token_ws[OF ws(2) nb(1)] by simp
    then show ?thesis
      using Nil t by (simp add: parse_elems.simps[of rd "t @ w @ CHR '']'' # rest"]
          skip_ws_to[OF ws(2) nb(2)])
  next
    case (Cons y ys)
    define J where "J = join (CHR '','' # p) (ser_elems nt gap i (y # ys)) @ w @ CHR '']'' # rest"
    have ih: "parse_elems rd J = Some (xs, rest)"
      unfolding J_def using Cons.IH Cons.prems Cons by simp
    from Cons.prems(2) Cons obtain u us where
      u: "ser nt gap i y = Some u" "ser_elems nt gap i (y # ys) = u # us"
      using ser_elems_ok[of nt rd "y # ys" gap i] by auto
    from Cons.prems(2) Cons have "json_ok nt rd y" by simp
    from ser_starts[OF this u(1)] obtain c r where
      c: "u = c # r" "starts_value c" by blast
    then obtain r2 where j: "J = c # r2"
      unfolding J_def using u(2) by (cases us) auto
    have sk: "skip_ws (p @ J) = J"
      unfolding j using skip_ws_to[OF ws(1) starts_value_not_ws[OF c(2)]] .
    have pv: "parse_value rd (t @ CHR '','' # p @ J) = Some (x, CHR '','' # p @ J)"
      using Cons.prems(1)[of x "CHR '','' # p @ J" t] t ends_token_comma by simp
    have "join (CHR '','' # p) (ser_elems nt gap i (x # xs)) @ w @ CHR '']'' # rest
        = t @ CHR '','' # p @ J"
      unfolding J_def using Cons t u(2) by simp
    then show ?thesis
      using pv ih sk
      by (simp add: parse_elems.simps[of rd "t @ CHR '','' # p @ J"] skip_ws_start[OF nb(3)])
  qed
qed

lemma all_ok_mem: "all_ok nt rd xs \<Longrightarrow> x \<in> set xs \<Longrightarrow> json_ok nt rd x"
  by (induction xs) auto

lemma members_ok_mem: "members_ok nt rd kvs \<Longrightarrow> (k, v) \<in> set kvs \<Longrightarrow> json_ok nt rd v"
  by (induction kvs) auto

lemma ser_props_ok:
  "members_ok nt rd ((k, v) # kvs) \<Longrightarrow>
   \<exists>t. ser nt gap i v = Some t \<and>
     ser_props nt gap i ((k, v) # kvs) = (quote k @ colon gap @ t) # ser_props nt gap i kvs"
  using ser_defined[of nt rd v gap i] by (auto simp: colon_def)

lemma parse_members_join:
  assumes el: "\<And>k x t rest. (k, x) \<in> set kvs \<Longrightarrow> ends_token rest \<Longrightarrow> ser nt gap i x = Some t \<Longrightarrow>
      parse_value rd (t @ rest) = Some (x, rest)"
    and ok: "members_ok nt rd kvs"
    and ne: "kvs \<noteq> []"
    and ws: "list_all is_ws p" "list_all is_ws w"
  shows "parse_members rd (join (CHR '','' # p) (ser_props nt gap i kvs) @ w @ CHR ''}'' # rest)
     = Some (kvs, rest)"
  using el ok ne
proof (induction kvs)
  case Nil
  then show ?case by simp
next
  case outer: (Cons kv kvs)
  obtain k v where kv: "kv = (k, v)" by (cases kv)
  from ser_props_ok[of nt rd k v kvs gap i] outer.prems(2) kv obtain t where
    t: "ser nt gap i v = Some t"
       "ser_props nt gap i (kv # kvs) = (quote k @ colon gap @ t) # ser_props nt gap i kvs"
    by auto
  from outer.prems(2) kv have "json_ok nt rd v" by simp
  from ser_starts[OF this t(1)] obtain c r where c: "t = c # r" "starts_value c" by blast
  have nb: "\<not> num_char (CHR ''}'')" "\<not> is_ws (CHR ''}'')" "\<not> is_ws (CHR '','')" "\<not> is_ws (CHR '':'')"
    "\<not> is_ws (CHR 0x22)"
    by (simp_all add: num_char_def is_digit_def is_ws_def)
  have sp: "skip_ws ((if gap = [] then [] else '' '') @ t @ tail) = t @ tail" for tail
    unfolding c by (simp add: skip_ws_def is_ws_def starts_value_not_ws[OF c(2), unfolded is_ws_def])
  have step: "parse_members rd (quote k @ colon gap @ t @ tail)
      = (case skip_ws tail of
           [] \<Rightarrow> None
         | d # r4 \<Rightarrow>
             if d = CHR ''}'' then Some ([(k, v)], r4)
             else if d = CHR '','' \<and> length r4 < length (quote k @ colon gap @ t @ tail) then
               (case parse_members rd (skip_ws r4) of
                  None \<Rightarrow> None
                | Some (ms, t') \<Rightarrow> Some ((k, v) # ms, t'))
             else None)"
    if pv: "parse_value rd (t @ tail) = Some (v, tail)" for tail
    by (subst parse_members.simps)
      (simp add: quote_def colon_def parse_chars_quoted skip_ws_start[OF nb(4)] sp pv)
  show ?case
  proof (cases kvs)
    case Nil
    have "parse_value rd (t @ w @ CHR ''}'' # rest) = Some (v, w @ CHR ''}'' # rest)"
      using outer.prems(1)[of k v "w @ CHR ''}'' # rest" t] kv t ends_token_ws[OF ws(2) nb(1)]
      by simp
    from step[OF this] have "parse_members rd (quote k @ colon gap @ t @ w @ CHR ''}'' # rest)
        = Some ([(k, v)], rest)"
      by (simp add: skip_ws_to[OF ws(2) nb(2)])
    moreover have "join (CHR '','' # p) (ser_props nt gap i (kv # kvs)) @ w @ CHR ''}'' # rest
        = quote k @ colon gap @ t @ w @ CHR ''}'' # rest"
      unfolding t(2) using Nil by simp
    ultimately show ?thesis
      using Nil kv by (simp only:)
  next
    case more: (Cons kv' kvs')
    define J where "J = join (CHR '','' # p) (ser_props nt gap i (kv' # kvs')) @ w @ CHR ''}'' # rest"
    have ih: "parse_members rd J = Some (kvs, rest)"
      unfolding J_def more[symmetric]
    proof (rule outer.IH)
      show "members_ok nt rd kvs" using outer.prems(2) kv by simp
      show "kvs \<noteq> []" using more by simp
      show "parse_value rd (t @ rest) = Some (x, rest)"
        if "(k, x) \<in> set kvs" "ends_token rest" "ser nt gap i x = Some t" for k x t rest
        using outer.prems(1)[of k x rest t] that by simp
    qed
    obtain k' v' where kv': "kv' = (k', v')" by (cases kv')
    from ser_props_ok[of nt rd k' v' kvs' gap i] outer.prems(2) more kv kv' obtain u where
      u: "ser_props nt gap i (kv' # kvs') = (quote k' @ colon gap @ u) # ser_props nt gap i kvs'"
      by auto
    obtain r2 where j: "J = CHR 0x22 # r2"
      unfolding J_def u by (cases "ser_props nt gap i kvs'") (auto simp: quote_def)
    have sk: "skip_ws (p @ J) = J"
      unfolding j using skip_ws_to[OF ws(1) nb(5)] .
    have pv: "parse_value rd (t @ CHR '','' # p @ J) = Some (v, CHR '','' # p @ J)"
      using outer.prems(1)[of k v "CHR '','' # p @ J" t] kv t ends_token_comma by simp
    have "ser_props nt gap i kvs \<noteq> []"
      unfolding more u by simp
    then have "join (CHR '','' # p) (ser_props nt gap i (kv # kvs)) @ w @ CHR ''}'' # rest
        = quote k @ colon gap @ t @ CHR '','' # p @ J"
      unfolding J_def t(2) more[symmetric] by (cases "ser_props nt gap i kvs") simp_all
    moreover from step[OF pv] ih sk
    have "parse_members rd (quote k @ colon gap @ t @ CHR '','' # p @ J) = Some ((k, v) # kvs, rest)"
      by (simp add: skip_ws_start[OF nb(3)])
    ultimately show ?thesis
      using kv by (simp only:)
  qed
qed

lemma members_snds: "(k, v) \<in> set kvs \<Longrightarrow> v \<in> Basic_BNFs.snds (k, v)"
  by simp

lemma parse_value_ser:
  assumes gap: "list_all is_ws gap"
  shows "json_ok nt rd v \<Longrightarrow> list_all is_ws ind \<Longrightarrow> ends_token rest \<Longrightarrow>
     ser nt gap ind v = Some t \<Longrightarrow> parse_value rd (t @ rest) = Some (v, rest)"
proof (induction v arbitrary: ind rest t)
  case JUndefined
  then show ?case by simp
next
  case JNull
  then show ?case by auto
next
  case (JBool b)
  then show ?case by auto
next
  case (JNum n)
  then show ?case using parse_value_number[of "nt n" rest rd] by auto
next
  case (JStr s)
  then show ?case by (auto simp: quote_def parse_chars_quoted)
next
  case (JArr xs)
  have i: "list_all is_ws (ind @ gap)" using JArr.prems(2) gap by simp
  show ?case
  proof (cases "xs = []")
    case True
    with JArr.prems(4) show ?thesis by (auto simp: bracket_def skip_ws_def is_ws_def)
  next
    case False
    from JArr.prems(1) have ok: "all_ok nt rd xs" by simp
    from ser_elems_ok[OF ok False, of gap "ind @ gap"] obtain u us where
      u: "ser nt gap (ind @ gap) (hd xs) = Some u" "ser_elems nt gap (ind @ gap) xs = u # us"
      by blast
    from all_ok_mem[OF ok, of "hd xs"] False have "json_ok nt rd (hd xs)" by simp
    from ser_starts[OF this u(1)] obtain c r where c: "u = c # r" "starts_value c" by blast
    define J where "J = join (CHR '','' # pad gap (ind @ gap)) (ser_elems nt gap (ind @ gap) xs)
      @ pad gap ind @ CHR '']'' # rest"
    have t: "t @ rest = CHR ''['' # pad gap (ind @ gap) @ J"
      using JArr.prems(4) u(2) by (simp add: bracket_parts J_def)
    obtain r2 where j: "J = c # r2"
      unfolding J_def u(2) c(1) by (cases us) auto
    have sk: "skip_ws (pad gap (ind @ gap) @ J) = J"
      unfolding j using skip_ws_to[OF pad_ws[OF i] starts_value_not_ws[OF c(2)]] .
    have nc: "c \<noteq> CHR '']''" using c(2) by (auto simp: starts_value_def is_digit_def)
    have "parse_elems rd J = Some (xs, rest)"
      unfolding J_def
    proof (rule parse_elems_join)
      show "all_ok nt rd xs" by (rule ok)
      show "xs \<noteq> []" by (rule False)
      show "list_all is_ws (pad gap (ind @ gap))" by (rule pad_ws[OF i])
      show "list_all is_ws (pad gap ind)" by (rule pad_ws[OF JArr.prems(2)])
      show "parse_value rd (t @ rest) = Some (x, rest)"
        if "x \<in> set xs" "ends_token rest" "ser nt gap (ind @ gap) x = Some t" for x t rest
        using JArr.IH[OF that(1) all_ok_mem[OF ok that(1)] i that(2,3)] .
    qed
    then show ?thesis
      unfolding t using sk unfolding j by (simp add: nc)
  qed
next
  case (JObj kvs)
  have i: "list_all is_ws (ind @ gap)" using JObj.prems(2) gap by simp
  from JObj.prems(1) have ok: "members_ok nt rd kvs" and canon: "props_of kvs = kvs" by simp_all
  show ?case
  proof (cases "kvs = []")
    case True
    with JObj.prems(4) show ?thesis by (auto simp: bracket_def skip_ws_def is_ws_def)
  next
    case False
    then obtain k v kvs' where kvs: "kvs = (k, v) # kvs'" by (cases kvs) auto
    from ser_props_ok[of nt rd k v kvs' gap "ind @ gap"] ok kvs obtain u where
      u: "ser_props nt gap (ind @ gap) kvs = (quote k @ colon gap @ u) # ser_props nt gap (ind @ gap) kvs'"
      by auto
    define J where "J = join (CHR '','' # pad gap (ind @ gap)) (ser_props nt gap (ind @ gap) kvs)
      @ pad gap ind @ CHR ''}'' # rest"
    have t: "t @ rest = CHR ''{'' # pad gap (ind @ gap) @ J"
      using JObj.prems(4) u by (simp add: bracket_parts J_def)
    obtain r2 where j: "J = CHR 0x22 # r2"
      unfolding J_def u by (cases "ser_props nt gap (ind @ gap) kvs'") (auto simp: quote_def)
    have nw: "\<not> is_ws (CHR 0x22)" by (simp add: is_ws_def)
    have sk: "skip_ws (pad gap (ind @ gap) @ J) = J"
      unfolding j using skip_ws_to[OF pad_ws[OF i] nw] .
    have "parse_members rd J = Some (kvs, rest)"
      unfolding J_def
    proof (rule parse_members_join)
      show "members_ok nt rd kvs" by (rule ok)
      show "kvs \<noteq> []" by (rule False)
      show "list_all is_ws (pad gap (ind @ gap))" by (rule pad_ws[OF i])
      show "list_all is_ws (pad gap ind)" by (rule pad_ws[OF JObj.prems(2)])
      show "parse_value rd (t @ rest) = Some (x, rest)"
        if "(k, x) \<in> set kvs" "ends_token rest" "ser nt gap (ind @ gap) x = Some t" for k x t rest
        using JObj.IH[OF that(1) members_snds[OF that(1)] members_ok_mem[OF ok that(1)] i that(2,3)] .
    qed
    then show ?thesis
      unfolding t using sk unfolding j by (simp add: canon)
  qed
qed

lemma parse_stringify:
  assumes "json_ok nt rd v" and "JSON_stringify nt v n = Some t"
  shows "JSON_parse_text rd t = Inr v"
proof -
  have g: "list_all is_ws (replicate (min n 10) (CHR '' ''))"
    by (simp add: list_all_iff is_ws_def)
  from assms(2) have s: "ser nt (replicate (min n 10) (CHR '' '')) [] v = Some t"
    by (simp add: JSON_stringify_def)
  from ser_starts[OF assms(1) s] obtain c r where c: "t = c # r" "starts_value c" by blast
  have "parse_value rd (t @ []) = Some (v, [])"
    by (rule parse_value_ser[OF g assms(1) _ _ s]) (simp_all add: ends_token_def)
  then have pv: "parse_value rd t = Some (v, [])"
    by (simp only: append_Nil2)
  have sk: "skip_ws t = t"
    unfolding c by (rule skip_ws_start[OF starts_value_not_ws[OF c(2)]])
  show ?thesis
    unfolding JSON_parse_text_def sk pv by (simp add: skip_ws_def)
qed

subsection \<open>Integers as numbers, and the examples\<close>

lemma digits_value_snoc:
  "digits_value acc (s @ [c]) = digits_value acc s * 10 + ((of_char c :: int) - 48)"
  by (induction s arbitrary: acc) auto

lemma of_char_digit: "m < 10 \<Longrightarrow> (of_char (char_of (48 + m :: nat)) :: int) = 48 + int m"
proof -
  assume m: "m < 10"
  have "(of_char (char_of (48 + m)) :: int) = int (of_char (char_of (48 + m)))"
    by (simp only: of_nat_of_char)
  also have "\<dots> = int (48 + m)" using m by simp
  finally show ?thesis by simp
qed

lemma is_digit_char: "m < 10 \<Longrightarrow> is_digit (char_of (48 + m :: nat))"
  by (simp add: is_digit_def)

lemma digits_value_dec: "digits_value 0 (dec n) = int n"
proof (induction n rule: dec.induct)
  case (1 n)
  show ?case
  proof (cases "n < 10")
    case True
    then show ?thesis
      by (subst dec.simps) (simp add: of_char_digit del: of_char_of)
  next
    case False
    have m: "n mod 10 < 10" by simp
    have "n = n div 10 * 10 + n mod 10" by simp
    then have "int n = int (n div 10 * 10 + n mod 10)" by (rule arg_cong)
    then have "int n = int (n div 10) * 10 + int (n mod 10)" by (simp only: of_nat_add of_nat_mult of_nat_numeral)
    with False 1 show ?thesis
      by (subst dec.simps) (simp add: digits_value_snoc of_char_digit[OF m] del: of_char_of)
  qed
qed

lemma dec_digits: "list_all is_digit (dec n) \<and> dec n \<noteq> []"
proof (induction n rule: dec.induct)
  case (1 n)
  show ?case
  proof (cases "n < 10")
    case True
    then show ?thesis by (subst (1 2) dec.simps) (simp add: is_digit_char)
  next
    case False
    have "n mod 10 < 10" by simp
    with False 1 show ?thesis
      by (subst (1 2) dec.simps) (simp add: is_digit_char)
  qed
qed

lemma dec_zero: "dec n = ''0'' \<Longrightarrow> n = 0"
  using digits_value_dec[of n] by simp

lemma dec_head: "dec n = ''0'' \<or> hd (dec n) \<noteq> CHR ''0''"
proof (induction n rule: dec.induct)
  case (1 n)
  show ?case
  proof (cases "n < 10")
    case True
    then show ?thesis by (subst (1 2) dec.simps) (auto simp: char_of_eq_iff)
  next
    case False
    then have "n div 10 \<noteq> 0" by simp
    then have "dec (n div 10) \<noteq> ''0''" using dec_zero[of "n div 10"] by auto
    with 1 False have "hd (dec (n div 10)) \<noteq> CHR ''0''" by simp
    moreover have "dec (n div 10) \<noteq> []" using dec_digits by simp
    ultimately show ?thesis
      using False by (subst (1 2) dec.simps) simp
  qed
qed

lemma valid_number_digits:
  assumes "list_all is_digit s" "s \<noteq> []" "s = ''0'' \<or> hd s \<noteq> CHR ''0''"
  shows "valid_number s" "valid_number (CHR ''-'' # s)"
proof -
  from assms(1,2) have nm: "hd s \<noteq> CHR ''-''"
    by (cases s) (auto simp: is_digit_def)
  have t: "takeWhile is_digit s = s" "dropWhile is_digit s = []"
    using assms(1) by (simp_all add: list_all_iff)
  have u: "(case s of [] \<Rightarrow> [] | c # r \<Rightarrow> if c = CHR ''-'' then r else s) = s"
    using nm assms(2) by (cases s) auto
  show "valid_number s"
    unfolding valid_number_def Let_def u t using assms(2,3) by (simp add: valid_frac_def)
  show "valid_number (CHR ''-'' # s)"
    unfolding valid_number_def Let_def using assms(2,3) by (simp add: valid_frac_def t)
qed

lemma valid_number_show_int: "valid_number (show_int i)"
  using valid_number_digits[of "dec (nat (- i))"] valid_number_digits[of "dec (nat i)"]
    dec_digits dec_head
  by (simp add: show_int_def)

lemma read_show_int: "read_int (show_int i) = i"
proof (cases "i < 0")
  case True
  then show ?thesis by (simp add: show_int_def read_int_def digits_value_dec)
next
  case False
  obtain c r where cr: "dec (nat i) = c # r" using dec_digits[of "nat i"] by (cases "dec (nat i)") auto
  with dec_digits[of "nat i"] have "c \<noteq> CHR ''-''" by (auto simp: is_digit_def)
  with False cr digits_value_dec[of "nat i"] show ?thesis
    by (simp add: show_int_def read_int_def)
qed

lemma json_ok_int: "json_ok show_int read_int (JNum i)"
  by (simp add: valid_number_show_int read_show_int)

lemma json_ok_coords: "json_ok show_int read_int (coords ds)"
proof -
  have "all_ok show_int read_int (map (\<lambda>(x, y). JArr [JNum x, JNum y]) ds)"
    by (induction ds) (auto simp: valid_number_show_int read_show_int)
  then show ?thesis by (simp add: coords_def)
qed

lemma load_example:
  assumes "json_ok show_int read_int doc"
  shows "load example_ext (example_io locked) (holding doc) = Inr doc"
proof -
  from ser_defined[OF assms, of "replicate (min 0 10) (CHR '' '')" "[]"] obtain t where
    t: "JSON_stringify show_int doc 0 = Some t"
    by (auto simp: JSON_stringify_def)
  then have "text_of doc = t" by (simp add: text_of_def)
  with parse_stringify[OF assms t] show ?thesis
    by (simp add: load_def readFile_def example_ext_def example_io_def holding_def)
qed

lemma json_ok_region:
  "json_ok show_int read_int entry \<Longrightarrow> json_ok show_int read_int (region_topology entry ds)"
  by (simp add: region_topology_def json_ok_coords valid_number_show_int read_show_int
      props_of_def put_def is_index_def is_digit_def)

lemma json_ok_polygon:
  "json_ok show_int read_int polygon" "json_ok show_int read_int polygon_collection"
  by (simp_all add: polygon_collection_def polygon_def valid_number_show_int read_show_int
      props_of_def put_def is_index_def is_digit_def)

section \<open>The claims\<close>

subsection \<open>Files written\<close>

text \<open>
  C1 (as amended). The claim reads: for a topology whose object mapping has N keys, a
  successful run writes exactly N output files, one per key, and no others. The script
  writes once per key, in the order of the keys, to the path \<^verbatim>\<open>./data/<key>.geojson\<close>;
  these N paths differ as strings, and no file but theirs is touched. They are N files
  when no key holds a \<^verbatim>\<open>/\<close>: each is then the file \<^verbatim>\<open><key>.geojson\<close> of the directory
  \<^verbatim>\<open>data\<close>. Keys with a \<^verbatim>\<open>/\<close> can name one file twice, as the counterexample below shows.
\<close>

theorem one_write_per_key:
  assumes "load L W fs = Inr input"
    and "get_prop input ''objects'' = Inr (JObj kvs)"
    and "distinct (map fst kvs)"
    and "convert L W fs = (None, d, w)"
  shows "map fst (written w) = map (\<lambda>key. ''./data/'' @ key @ ''.geojson'') (map fst kvs) \<and>
         distinct (map fst (written w)) \<and>
         length (written w) = length kvs \<and>
         (\<forall>f. f \<notin> set (output_files w) \<longrightarrow> files w f = fs f) \<and>
         ((\<forall>key \<in> set (map fst kvs). CHR ''/'' \<notin> set key) \<longrightarrow>
            output_files w = map (\<lambda>key. [''data'', key @ ''.geojson'']) (map fst kvs) \<and>
            length (output_files w) = length kvs)"
proof -
  have e: "Object_entries (JObj kvs) = Inr kvs" by simp
  from assms(4) have "loop L W input \<lparr>files = fs, written = []\<rparr> (map fst kvs) = (None, the d, w)"
    by (auto simp: convert_loaded[OF assms(1,2) e] split: prod.splits)
  from loop_writes[OF this] have
    p: "map fst (written w) = map out_path (map fst kvs)" and
    f: "files w = apply_writes fs (written w)"
    by auto
  have 1: "map fst (written w) = map (\<lambda>key. ''./data/'' @ key @ ''.geojson'') (map fst kvs)"
    using p by (simp add: out_path_def)
  have 2: "distinct (map fst (written w))"
    unfolding p using assms(3) by (simp add: distinct_map inj_on_def out_path_inj)
  have 3: "length (written w) = length kvs"
    using arg_cong[OF p, of length] by simp
  have 4: "\<forall>f. f \<notin> set (output_files w) \<longrightarrow> files w f = fs f"
    by (simp add: f output_files_def apply_writes_other)
  have 5: "output_files w = map (\<lambda>key. [''data'', key @ ''.geojson'']) (map fst kvs) \<and>
           length (output_files w) = length kvs"
    if flat: "\<forall>key \<in> set (map fst kvs). CHR ''/'' \<notin> set key"
  proof -
    have "map (\<lambda>(p, c). resolve p) (written w) = map resolve (map fst (written w))"
      by (simp add: case_prod_unfold)
    also have "\<dots> = map (\<lambda>key. resolve (out_path key)) (map fst kvs)"
      by (simp add: p)
    also have "\<dots> = map (\<lambda>key. [''data'', key @ ''.geojson'']) (map fst kvs)"
      using flat by (intro map_cong) (auto simp: resolve_out_flat)
    finally have r: "map (\<lambda>(p, c). resolve p) (written w)
        = map (\<lambda>key. [''data'', key @ ''.geojson'']) (map fst kvs)" .
    have "inj (\<lambda>key :: string. [''data'', key @ ''.geojson''])"
      by (simp add: inj_on_def)
    then have "distinct (map (\<lambda>key. [''data'', key @ ''.geojson'']) (map fst kvs))"
      using assms(3) by (simp add: distinct_map inj_on_def)
    then show ?thesis
      unfolding output_files_def r by (simp add: distinct_remdups_id)
  qed
  from 1 2 3 4 5 show ?thesis by blast
qed

theorem one_write_per_key_witness:
  "distinct (map fst plain_objects) \<and>
   fst (convert example_ext (example_io [])
      (holding (topology_with plain_objects))) = None \<and>
   map fst (written (snd (snd (convert example_ext
      (example_io []) (holding (topology_with plain_objects))))))
     = [''./data/ok.geojson'', ''./data/more.geojson''] \<and>
   output_files (snd (snd (convert example_ext
      (example_io []) (holding (topology_with plain_objects)))))
     = [[''data'', ''ok.geojson''], [''data'', ''more.geojson'']]"
proof -
  let ?T = "topology_with plain_objects"
  let ?r = "convert (example_ext) (example_io []) (holding ?T)"
  have o: "get_prop ?T ''objects'' = Inr (JObj plain_objects)" by code_simp
  have d: "distinct (map fst plain_objects)" by (simp add: plain_objects_def)
  have f: "\<forall>key \<in> set (map fst plain_objects). CHR ''/'' \<notin> set key"
    by (simp add: plain_objects_def)
  have j: "json_ok show_int read_int ?T" by code_simp
  have s: "fst ?r = None" by code_simp
  from one_write_per_key[OF load_example[OF j] o d success_triple[OF s]] f d s
  show ?thesis by (simp add: plain_objects_def)
qed

text \<open>
  The counterexample to C1 as stated: the mapping has the two keys \<^verbatim>\<open>a\<close> and \<^verbatim>\<open>./a\<close>, the
  run succeeds and writes \<^verbatim>\<open>./data/a.geojson\<close> and \<^verbatim>\<open>./data/./a.geojson\<close>, which are one
  file.
\<close>

theorem aliasing_keys_share_a_file:
  "get_prop (topology_with alias_objects) ''objects'' = Inr (JObj alias_objects) \<and>
   length alias_objects = 2 \<and> distinct (map fst alias_objects) \<and>
   fst (convert example_ext (example_io [])
      (holding (topology_with alias_objects))) = None \<and>
   map fst (written (snd (snd (convert example_ext (example_io [])
      (holding (topology_with alias_objects))))))
     = [''./data/a.geojson'', ''./data/./a.geojson''] \<and>
   output_files (snd (snd (convert example_ext (example_io [])
      (holding (topology_with alias_objects)))))
     = [[''data'', ''a.geojson'']] \<and>
   length (output_files (snd (snd (convert example_ext
      (example_io []) (holding (topology_with alias_objects)))))) \<noteq> length alias_objects"
  by code_simp

subsection \<open>The decoded ring\<close>

text \<open>
  The run on the minimal topology, for any entry that the decoder takes to a value \<open>g\<close>
  with the text \<open>c\<close>: it succeeds and writes \<open>c\<close> to \<^verbatim>\<open>./data/region.geojson\<close>.
\<close>

lemma region_run:
  assumes j: "json_ok show_int read_int entry"
    and m: "feature_model (region_topology entry ds) entry = Inr (g, region_topology entry ds)"
    and c: "JSON_stringify show_int g 2 = Some c"
  shows "convert example_ext (example_io []) (holding (region_topology entry ds))
      = (None, Some (region_topology entry ds),
         \<lparr>files = (holding (region_topology entry ds))([''data'', ''region.geojson''] \<mapsto> c),
          written = [(''./data/region.geojson'', c)]\<rparr>)"
proof -
  let ?T = "region_topology entry ds"
  have o: "get_prop ?T ''objects'' = Inr (JObj [(''region'', entry)])"
    by (simp add: region_topology_def own_prop_def)
  have e: "Object_entries (JObj [(''region'', entry)]) = Inr [(''region'', entry)]"
    by simp
  have p: "resolve ''./data/region.geojson'' = [''data'', ''region.geojson'']"
    using resolve_out_flat[of "''region''"] by (simp add: out_path_def)
  have b: "body example_ext (example_io []) ?T w ''region''
      = Inr (?T, \<lparr>files = (files w)([''data'', ''region.geojson''] \<mapsto> c),
                  written = written w @ [(''./data/region.geojson'', c)]\<rparr>)" for w
    unfolding body_Inr
    by (simp add: o own_prop_def example_ext_def example_io_def m c p out_path_def)
  show ?thesis
    by (simp add: convert_loaded[OF load_example[OF json_ok_region[OF j]] o e] b)
qed

lemma decode_polygon:
  "feature_model (region_topology polygon ds) polygon
     = Inr (region_feature (expected_ring ds), region_topology polygon ds)"
  by (simp add: feature_model_def region_topology_def member_def
      own_prop_def polygon_def as_feature_def geometry_def line_def arc_at_def decode_arc_def
      coords_def those_position region_feature_def absolute_expected)

lemma decode_polygon_collection:
  "feature_model (region_topology polygon_collection ds) polygon_collection
     = Inr (region_geojson (expected_ring ds), region_topology polygon_collection ds)"
  by (simp add: feature_model_def region_topology_def polygon_collection_def member_def
      own_prop_def polygon_def as_feature_def geometry_def line_def arc_at_def decode_arc_def
      coords_def those_position region_geojson_def region_feature_def absolute_expected)

lemma region_texts:
  "\<exists>c. JSON_stringify show_int (region_feature ring) 2 = Some c"
  "\<exists>c. JSON_stringify show_int (region_geojson ring) 2 = Some c"
  by (simp_all add: JSON_stringify_def region_geojson_def region_feature_def)

text \<open>
  C2, as amended. Take the minimal topology with the single key \<^verbatim>\<open>region\<close> and a one-arc
  table, whatever the deltas \<open>ds\<close> of the arc; the decoder is \<open>feature_model\<close>. When the
  key is bound to the one polygon, the run succeeds and the file
  \<^verbatim>\<open>./data/region.geojson\<close> holds the 2-space serialisation of a single feature, the polygon
  with the one ring \<open>expected_ring ds\<close>: the absolute points that the deltas add up to.
  When the key is bound to a geometry collection holding that polygon, the file holds the
  feature collection whose single feature is that feature.
\<close>

theorem region_ring_decoded:
  "fst (convert example_ext (example_io [])
      (holding (region_topology polygon ds))) = None \<and>
   map (\<lambda>(p, c). (p, Some c))
     (written (snd (snd (convert example_ext (example_io [])
        (holding (region_topology polygon ds))))))
     = [(''./data/region.geojson'',
         JSON_stringify show_int (region_feature (expected_ring ds)) 2)] \<and>
   files (snd (snd (convert example_ext (example_io [])
      (holding (region_topology polygon ds))))) [''data'', ''region.geojson'']
     = JSON_stringify show_int (region_feature (expected_ring ds)) 2 \<and>
   fst (convert example_ext (example_io [])
      (holding (region_topology polygon_collection ds))) = None \<and>
   map (\<lambda>(p, c). (p, Some c))
     (written (snd (snd (convert example_ext (example_io [])
        (holding (region_topology polygon_collection ds))))))
     = [(''./data/region.geojson'',
         JSON_stringify show_int (region_geojson (expected_ring ds)) 2)] \<and>
   files (snd (snd (convert example_ext (example_io [])
      (holding (region_topology polygon_collection ds))))) [''data'', ''region.geojson'']
     = JSON_stringify show_int (region_geojson (expected_ring ds)) 2"
proof -
  obtain c1 where c1: "JSON_stringify show_int (region_feature (expected_ring ds)) 2 = Some c1"
    using region_texts(1) by blast
  obtain c2 where c2: "JSON_stringify show_int (region_geojson (expected_ring ds)) 2 = Some c2"
    using region_texts(2) by blast
  note r1 = region_run[OF json_ok_polygon(1) decode_polygon c1]
  note r2 = region_run[OF json_ok_polygon(2) decode_polygon_collection c2]
  show ?thesis
    by (simp add: r1 r2 c1 c2)
qed

text \<open>
  The claim as it stands fails at the triangle: with the key bound to the polygon the run
  succeeds, and the one text written parses to a value whose type is \<^verbatim>\<open>Feature\<close> and which
  has no member \<^verbatim>\<open>features\<close>. It is a feature with the closed ring of the triangle, not a
  feature collection.
\<close>

theorem single_polygon_gives_feature:
  "fst (convert example_ext (example_io [])
      (holding (region_topology polygon triangle))) = None \<and>
   map fst (written (snd (snd (convert example_ext (example_io [])
      (holding (region_topology polygon triangle))))))
     = [''./data/region.geojson''] \<and>
   map (JSON_parse_text read_int)
     (map snd (written (snd (snd (convert example_ext (example_io [])
        (holding (region_topology polygon triangle)))))))
     = [Inr (region_feature [(0, 0), (4, 0), (4, 3), (0, 0)])] \<and>
   member (region_feature [(0, 0), (4, 0), (4, 3), (0, 0)]) ''type'' = JStr ''Feature'' \<and>
   member (region_feature [(0, 0), (4, 0), (4, 3), (0, 0)]) ''type''
     \<noteq> JStr ''FeatureCollection'' \<and>
   member (region_feature [(0, 0), (4, 0), (4, 3), (0, 0)]) ''features'' = JUndefined \<and>
   region_feature [(0, 0), (4, 0), (4, 3), (0, 0)]
     \<noteq> region_geojson [(0, 0), (4, 0), (4, 3), (0, 0)]"
  by code_simp

subsection \<open>Path, content and overwriting\<close>



text \<open>The serialisation at work: two spaces for each level, one element or member a line.\<close>

lemma stringify_indents_by_two:
  "JSON_stringify show_int (JArr [JNum 1, JArr [JNum 2, JNum 3], JArr [], JNull]) 2
     = Some (join [CHR 0x0A]
         [''['',
          ''  1,'',
          ''  ['',
          ''    2,'',
          ''    3'',
          ''  ],'',
          ''  [],'',
          ''  null'',
          '']''])"
  by code_simp

subsection \<open>Failures\<close>

text \<open>
  C4. When the body fails for a key (reading the entry, decoding, serialising or writing),
  after the keys before it went through, the run ends there with that error. Its world is
  the world after the earlier keys: their writes and no other, so the files they wrote
  are in place as written, nothing is rolled back, and no later key is processed.
\<close>

theorem first_failure_ends_run:
  assumes "load L W fs = Inr input"
    and "get_prop input ''objects'' = Inr objs"
    and "Object_entries objs = Inr ents"
    and "map fst ents = before @ key # after"
    and "loop L W input \<lparr>files = fs, written = []\<rparr> before = (None, input1, w1)"
    and "body L W input1 w1 key = Inl e"
  shows "convert L W fs = (Some e, Some input1, w1) \<and>
         map fst (written w1) = map out_path before \<and>
         files w1 = apply_writes fs (written w1)"
proof -
  have "loop L W input \<lparr>files = fs, written = []\<rparr> (before @ key # after) = (Some e, input1, w1)"
    using assms(5,6) by (simp add: loop_prefix)
  then have "convert L W fs = (Some e, Some input1, w1)"
    using assms(1-4) by (simp add: convert_loaded)
  moreover from loop_writes[OF assms(5)]
  have "map fst (written w1) = map out_path before \<and> files w1 = apply_writes fs (written w1)"
    by auto
  ultimately show ?thesis by simp
qed

text \<open>
  The witness has two runs. In the first the keys are \<^verbatim>\<open>ok\<close>, \<^verbatim>\<open>bad\<close> and \<^verbatim>\<open>later\<close>,
  and \<^verbatim>\<open>bad\<close> does not decode: the run ends with the decode error, having written
  \<^verbatim>\<open>./data/ok.geojson\<close> alone. In the second the keys are \<^verbatim>\<open>ok\<close> and \<^verbatim>\<open>more\<close>, and the
  write of \<^verbatim>\<open>./data/more.geojson\<close> is refused: the run ends with that error, again with
  \<^verbatim>\<open>./data/ok.geojson\<close> written.
\<close>

theorem first_failure_ends_run_witness:
  "convert example_ext (example_io []) (holding (topology_with failing_objects))
     = (Some (Thrown ''decode''), Some (topology_with failing_objects),
        snd (snd (loop example_ext (example_io []) (topology_with failing_objects)
          \<lparr>files = holding (topology_with failing_objects), written = []\<rparr> [''ok'']))) \<and>
   map fst (written (snd (snd (convert example_ext (example_io [])
       (holding (topology_with failing_objects))))))
     = [''./data/ok.geojson''] \<and>
   fst (convert example_ext (example_io [''./data/more.geojson''])
       (holding (topology_with plain_objects))) = Some (Thrown ''EACCES'') \<and>
   map fst (written (snd (snd (convert example_ext (example_io [''./data/more.geojson''])
       (holding (topology_with plain_objects))))))
     = [''./data/ok.geojson'']"
proof -
  have p: "map out_path [''ok''] = [''./data/ok.geojson'']"
    by (simp add: out_path_def)
  have decode: "convert example_ext (example_io []) (holding (topology_with failing_objects))
      = (Some (Thrown ''decode''), Some (topology_with failing_objects),
         snd (snd (loop example_ext (example_io []) (topology_with failing_objects)
           \<lparr>files = holding (topology_with failing_objects), written = []\<rparr> [''ok''])))
    \<and> map fst (written (snd (snd (loop example_ext (example_io [])
          (topology_with failing_objects)
          \<lparr>files = holding (topology_with failing_objects), written = []\<rparr> [''ok'']))))
      = [''./data/ok.geojson'']"
  proof -
    let ?T = "topology_with failing_objects"
    let ?W = "example_io []"
    let ?r = "loop example_ext ?W ?T \<lparr>files = holding ?T, written = []\<rparr> [''ok'']"
    have o: "get_prop ?T ''objects'' = Inr (JObj failing_objects)"
      by code_simp
    have e: "Object_entries (JObj failing_objects) = Inr failing_objects"
      by simp
    have k: "map fst failing_objects = [''ok''] @ ''bad'' # [''later'']"
      by code_simp
    have "fst ?r = None" "fst (snd ?r) = ?T"
      by code_simp+
    then have l: "?r = (None, ?T, snd (snd ?r))"
      by (simp add: prod_eq_iff)
    have "isl (body example_ext ?W ?T (snd (snd ?r)) ''bad'')"
         "projl (body example_ext ?W ?T (snd (snd ?r)) ''bad'') = Thrown ''decode''"
      by code_simp+
    then have b: "body example_ext ?W ?T (snd (snd ?r)) ''bad'' = Inl (Thrown ''decode'')"
      by (metis sum.collapse(1))
    have j: "json_ok show_int read_int ?T" by code_simp
    from first_failure_ends_run[OF load_example[OF j] o e k l b] p show ?thesis
      by simp
  qed
  have refused: "convert example_ext (example_io [''./data/more.geojson''])
        (holding (topology_with plain_objects))
      = (Some (Thrown ''EACCES''), Some (topology_with plain_objects),
         snd (snd (loop example_ext (example_io [''./data/more.geojson''])
           (topology_with plain_objects)
           \<lparr>files = holding (topology_with plain_objects), written = []\<rparr> [''ok''])))
    \<and> map fst (written (snd (snd (loop example_ext (example_io [''./data/more.geojson''])
          (topology_with plain_objects)
          \<lparr>files = holding (topology_with plain_objects), written = []\<rparr> [''ok'']))))
      = [''./data/ok.geojson'']"
  proof -
    let ?T = "topology_with plain_objects"
    let ?W = "example_io [''./data/more.geojson'']"
    let ?r = "loop example_ext ?W ?T \<lparr>files = holding ?T, written = []\<rparr> [''ok'']"
    have o: "get_prop ?T ''objects'' = Inr (JObj plain_objects)"
      by code_simp
    have e: "Object_entries (JObj plain_objects) = Inr plain_objects"
      by simp
    have k: "map fst plain_objects = [''ok''] @ ''more'' # []"
      by code_simp
    have "fst ?r = None" "fst (snd ?r) = ?T"
      by code_simp+
    then have l: "?r = (None, ?T, snd (snd ?r))"
      by (simp add: prod_eq_iff)
    have "isl (body example_ext ?W ?T (snd (snd ?r)) ''more'')"
         "projl (body example_ext ?W ?T (snd (snd ?r)) ''more'') = Thrown ''EACCES''"
      by code_simp+
    then have b: "body example_ext ?W ?T (snd (snd ?r)) ''more'' = Inl (Thrown ''EACCES'')"
      by (metis sum.collapse(1))
    have j: "json_ok show_int read_int ?T" by code_simp
    from first_failure_ends_run[OF load_example[OF j] o e k l b] p show ?thesis
      by simp
  qed
  from decode refused show ?thesis by simp
qed

text \<open>
  C5. When the input file does not exist, the run ends with the file-not-found error,
  it has written nothing, and the files are as they were.
\<close>

theorem missing_input_no_write:
  "fs (resolve input_path) = None \<Longrightarrow>
   convert L W fs = (Some ENOENT, None, \<lparr>files = fs, written = []\<rparr>)"
  by (simp add: convert_def readFile_def)

theorem missing_input_no_write_witness:
  "Map.empty (resolve input_path) = None \<and>
   convert example_ext (example_io []) Map.empty
     = (Some ENOENT, None, \<lparr>files = Map.empty, written = []\<rparr>)"
  using missing_input_no_write[of Map.empty example_ext "example_io []"]
  by simp

subsection \<open>The empty mapping\<close>

text \<open>
  C6. When the input file is read and parsed and the object mapping of the document is
  empty, the run exits normally, it has written nothing, and the files are as they were.
\<close>

theorem empty_mapping_succeeds:
  "load L W fs = Inr input \<Longrightarrow> get_prop input ''objects'' = Inr (JObj []) \<Longrightarrow>
   convert L W fs = (None, Some input, \<lparr>files = fs, written = []\<rparr>)"
  by (simp add: convert_loaded[where ents = "[]"])

theorem empty_mapping_succeeds_witness:
  "load example_ext (example_io []) (holding (topology_with []))
     = Inr (topology_with []) \<and>
   get_prop (topology_with []) ''objects'' = Inr (JObj []) \<and>
   convert example_ext (example_io []) (holding (topology_with []))
     = (None, Some (topology_with []), \<lparr>files = holding (topology_with []), written = []\<rparr>)"
proof -
  have o: "get_prop (topology_with []) ''objects'' = Inr (JObj ([] :: (string \<times> int jsval) list))"
    by code_simp
  have j: "json_ok show_int read_int (topology_with [])" by code_simp
  from empty_mapping_succeeds[OF load_example[OF j] o] load_example[OF j] o show ?thesis by blast
qed

subsection \<open>Running again\<close>

text \<open>
  C7. Two successful runs whose input files hold the same text write the same paths with
  the same contents, byte for byte, whatever else their file systems hold and however
  their environments differ. A successful run on the files that a successful run left
  reads the same input, since no output path names the input file, and leaves the files
  as it found them.
\<close>

theorem rerun_gives_same_output:
  assumes "convert L W1 fs1 = (None, d1, w1)"
    and "convert L W2 fs2 = (None, d2, w2)"
    and "fs2 (resolve input_path) = fs1 (resolve input_path) \<or> fs2 = files w1"
  shows "written w2 = written w1 \<and> (fs2 = files w1 \<longrightarrow> files w2 = files w1)"
proof -
  from convert_success[OF assms(1)] obtain tx input objs ents input1 where
    a: "fs1 (resolve input_path) = Some tx" "JSON_parse L tx = Inr input"
       "get_prop input ''objects'' = Inr objs" "Object_entries objs = Inr ents"
       "loop L W1 input \<lparr>files = fs1, written = []\<rparr> (map fst ents) = (None, input1, w1)"
    by blast
  from loop_success[OF a(5)] obtain gs ws where
    s: "decode_keys L input (map fst ents) = Inr (input1, gs)"
       "map fst gs = map fst ents"
       "map (\<lambda>(p, c). (p, Some c)) ws
          = map (\<lambda>(k, g). (out_path k, JSON_stringify (number_text L) g 2)) gs"
       "written w1 = ws" "files w1 = apply_writes fs1 ws"
    by auto
  have paths: "map fst ws = map out_path (map fst ents)"
    using loop_writes[OF a(5)] s(4) by auto
  have "resolve input_path \<notin> (\<lambda>(p, c). resolve p) ` set ws"
  proof
    assume "resolve input_path \<in> (\<lambda>(p, c). resolve p) ` set ws"
    then obtain p c where "(p, c) \<in> set ws" "resolve p = resolve input_path" by auto
    then have "p \<in> set (map fst ws)" by force
    with paths obtain k where "p = out_path k" by auto
    with \<open>resolve p = resolve input_path\<close> show False
      using resolve_out_not_input by simp
  qed
  then have "files w1 (resolve input_path) = fs1 (resolve input_path)"
    by (simp add: s(5) apply_writes_other)
  with assms(3) have same: "fs2 (resolve input_path) = Some tx"
    using a(1) by auto
  from convert_success[OF assms(2)] same a(2,3,4) obtain input2 where
    b: "loop L W2 input \<lparr>files = fs2, written = []\<rparr> (map fst ents) = (None, input2, w2)"
    by auto
  from loop_success[OF b] s(1) obtain ws' where
    t: "map (\<lambda>(p, c). (p, Some c)) ws'
          = map (\<lambda>(k, g). (out_path k, JSON_stringify (number_text L) g 2)) gs"
       "written w2 = ws'" "files w2 = apply_writes fs2 ws'"
    by auto
  have "inj (\<lambda>(p, c). (p :: string, Some (c :: string)))"
    by (auto simp: inj_on_def)
  with s(3) t(1) have "ws' = ws"
    by (metis inj_map_eq_map)
  with s t show ?thesis
    by (simp add: apply_writes_twice)
qed

theorem rerun_gives_same_output_witness:
  "fst (convert example_ext (example_io [])
        (holding (topology_with plain_objects))) = None \<and>
   fst (convert example_ext (example_io [])
     (files (snd (snd (convert example_ext (example_io [])
        (holding (topology_with plain_objects))))))) = None \<and>
   written (snd (snd (convert example_ext (example_io [])
     (files (snd (snd (convert example_ext (example_io [])
        (holding (topology_with plain_objects)))))))))
     = written (snd (snd (convert example_ext (example_io [])
        (holding (topology_with plain_objects))))) \<and>
   files (snd (snd (convert example_ext (example_io [])
     (files (snd (snd (convert example_ext (example_io [])
        (holding (topology_with plain_objects)))))))))
     = files (snd (snd (convert example_ext (example_io [])
        (holding (topology_with plain_objects)))))"
proof -
  let ?W = "example_io []"
  let ?r1 = "convert example_ext ?W (holding (topology_with plain_objects))"
  let ?r2 = "convert example_ext ?W (files (snd (snd ?r1)))"
  have 1: "fst ?r1 = None" by code_simp
  have 2: "fst ?r2 = None" by code_simp
  from rerun_gives_same_output[OF success_triple[OF 1] success_triple[OF 2]] 1 2
  show ?thesis by simp
qed

subsection \<open>Reading the output back\<close>



text \<open>
  The claim as it stands, for every decoded value, fails: a property whose value is
  undefined is left out of the text, and an undefined element of an array and a number
  that is not finite are written \<^verbatim>\<open>null\<close>.
\<close>

lemma undefined_is_not_kept:
  "JSON_stringify nt (JArr [JUndefined]) n = JSON_stringify nt (JArr [JNull]) n \<and>
   JSON_stringify nt (JObj [(k, JUndefined)]) n = JSON_stringify nt (JObj []) n"
  by (simp add: JSON_stringify_def)


subsection \<open>Keys with a path separator\<close>

text \<open>
  C10. The key goes into the path as it is. So when a successful run has a key
  \<^verbatim>\<open>../name\<close>, with no further separator in \<^verbatim>\<open>name\<close>, it has written the path
  \<^verbatim>\<open>./data/../name.geojson\<close>: the file \<^verbatim>\<open>name.geojson\<close> of the working directory, which
  exists afterwards and is not inside the directory \<^verbatim>\<open>data\<close>. (Whether the write fails,
  say for a missing directory, is the environment's choice; then the run is not a
  successful one.)
\<close>

theorem separator_in_key_leaves_directory:
  assumes "load L W fs = Inr input"
    and "get_prop input ''objects'' = Inr objs"
    and "Object_entries objs = Inr ents"
    and "convert L W fs = (None, d, w)"
    and "''../'' @ name \<in> set (map fst ents)"
    and "CHR ''/'' \<notin> set name"
  shows "''./data/../'' @ name @ ''.geojson'' \<in> set (map fst (written w)) \<and>
         [name @ ''.geojson''] \<in> set (output_files w) \<and>
         files w [name @ ''.geojson''] \<noteq> None \<and>
         \<not> inside [''data''] [name @ ''.geojson'']"
proof -
  from assms(4) have "loop L W input \<lparr>files = fs, written = []\<rparr> (map fst ents) = (None, the d, w)"
    by (auto simp: convert_loaded[OF assms(1,2,3)] split: prod.splits)
  from loop_writes[OF this] have
    p: "map fst (written w) = map out_path (map fst ents)" and
    f: "files w = apply_writes fs (written w)"
    by auto
  from assms(5) have "out_path (''../'' @ name) \<in> out_path ` set (map fst ents)"
    by (rule imageI)
  then have m: "out_path (''../'' @ name) \<in> set (map fst (written w))"
    by (simp only: p set_map)
  then obtain c where "(out_path (''../'' @ name), c) \<in> set (written w)" by auto
  then have h: "[name @ ''.geojson''] \<in> (\<lambda>(p, c). resolve p) ` set (written w)"
    using resolve_out_parent[OF assms(6)] by force
  from m have 1: "''./data/../'' @ name @ ''.geojson'' \<in> set (map fst (written w))"
    by (simp add: out_path_def)
  from h have 2: "[name @ ''.geojson''] \<in> set (output_files w)"
    by (simp add: output_files_def)
  from h have 3: "files w [name @ ''.geojson''] \<noteq> None"
    unfolding f by (rule apply_writes_hit)
  have 4: "\<not> inside [''data''] [name @ ''.geojson'']"
    by (simp add: inside_def)
  from 1 2 3 4 show ?thesis by blast
qed

theorem separator_in_key_leaves_directory_witness:
  "fst (convert example_ext (example_io [])
      (holding (topology_with escaping_objects))) = None \<and>
   ''./data/../x.geojson'' \<in> set (map fst (written (snd (snd (convert
      example_ext (example_io [])
      (holding (topology_with escaping_objects))))))) \<and>
   files (snd (snd (convert example_ext (example_io [])
      (holding (topology_with escaping_objects))))) [''x.geojson''] \<noteq> None \<and>
   \<not> inside [''data''] [''x.geojson'']"
proof -
  let ?T = "topology_with escaping_objects"
  let ?r = "convert (example_ext) (example_io []) (holding ?T)"
  have o: "get_prop ?T ''objects'' = Inr (JObj escaping_objects)" by code_simp
  have e: "Object_entries (JObj escaping_objects) = Inr escaping_objects" by simp
  have k: "''../'' @ ''x'' \<in> set (map fst escaping_objects)" by (simp add: escaping_objects_def)
  have n: "CHR ''/'' \<notin> set ''x''" by simp
  have j: "json_ok show_int read_int ?T" by code_simp
  have s: "fst ?r = None" by code_simp
  from separator_in_key_leaves_directory[OF load_example[OF j] o e success_triple[OF s] k n] s
  show ?thesis by simp
qed

end
